theory Spec2Isabelle
  imports Main "HOL-Library.Sublist" "HOL-Library.AList" "HOL-Library.Multiset"
begin

section \<open>The Cypress test dashboard backend (cypress-api-implementation.js)\<close>

text \<open>
  A shallow embedding of the Express backend: the in-memory store of test runs
  (\<open>testResultsStore\<close>), the handler of \<open>POST /api/tests/run\<close> with its
  \<open>close\<close> callback, the Mochawesome report processing (\<open>processTestResults\<close>),
  the category helpers and the \<open>GET /api/tests/recent\<close> endpoint.

  JavaScript strings are modelled as \<open>string\<close>, one \<open>char\<close> per UTF-16 code unit
  below 256 (the Latin-1 range); clock readings are integers (milliseconds since the
  epoch, what \<open>Date.now()\<close> and the time value of \<open>new Date()\<close> are).
\<close>

subsection \<open>Strings\<close>

text \<open>\<open>String.prototype.toLowerCase\<close> on the Latin-1 range: A-Z and the accented
  capitals 0xC0-0xDE (but the multiplication sign 0xD7) move up by 32.\<close>

definition toLowerChar :: "char \<Rightarrow> char" where
  "toLowerChar c =
     (let n = (of_char c :: nat)
      in if (65 \<le> n \<and> n \<le> 90) \<or> (192 \<le> n \<and> n \<le> 222 \<and> n \<noteq> 215)
         then char_of (n + 32) else c)"

definition toLowerCase :: "string \<Rightarrow> string" where
  "toLowerCase s = map toLowerChar s"

text \<open>\<open>String.prototype.toUpperCase\<close> of one character, as \<open>formatName\<close> applies it
  to \<open>word.charAt(0)\<close>. The result is given as UTF-16 code units, since three Latin-1
  characters leave the range: the sharp s (0xDF) becomes \<open>SS\<close>, the micro sign (0xB5)
  becomes U+039C and y with diaeresis (0xFF) becomes U+0178.\<close>

definition toUpperChar :: "char \<Rightarrow> nat list" where
  "toUpperChar c =
     (let n = (of_char c :: nat)
      in if (97 \<le> n \<and> n \<le> 122) \<or> (224 \<le> n \<and> n \<le> 254 \<and> n \<noteq> 247)
           then [n - 32]
         else if n = 223 then [83, 83]
         else if n = 181 then [924]
         else if n = 255 then [376]
         else [n])"

text \<open>\<open>s.includes(kw)\<close>: \<open>kw\<close> occurs in \<open>s\<close> as a contiguous run.\<close>

fun str_includes :: "string \<Rightarrow> string \<Rightarrow> bool" where
  "str_includes [] kw = (kw = [])"
| "str_includes (c # cs) kw = (prefix kw (c # cs) \<or> str_includes cs kw)"

text \<open>\<open>path.basename(p)\<close> (POSIX): trailing slashes are dropped, then the part after
  the last slash is returned.\<close>

definition basename :: "string \<Rightarrow> string" where
  "basename p =
     rev (takeWhile (\<lambda>c. c \<noteq> CHR ''/'') (dropWhile (\<lambda>c. c = CHR ''/'') (rev p)))"

text \<open>\<open>name.replace(/\.[^/.]+$/, '')\<close>: when the string ends with a dot followed by
  one or more characters that are neither a slash nor a dot, that ending is removed.\<close>

definition stripExtension :: "string \<Rightarrow> string" where
  "stripExtension s =
     (let ext = takeWhile (\<lambda>c. c \<noteq> CHR ''/'' \<and> c \<noteq> CHR ''.'') (rev s);
          rest = dropWhile (\<lambda>c. c \<noteq> CHR ''/'' \<and> c \<noteq> CHR ''.'') (rev s)
      in case rest of
           [] \<Rightarrow> s
         | d # front \<Rightarrow> if d = CHR ''.'' \<and> ext \<noteq> [] then rev front else s)"

text \<open>\<open>formatName\<close>: dashes and underscores become spaces, the string is split at
  spaces, every word gets its first character in upper case, the words are joined
  with spaces again and \<open>' Tests'\<close> is appended. The name is a list of UTF-16 code
  units, as the upper case is.\<close>

fun split_spaces :: "string \<Rightarrow> string list" where
  "split_spaces [] = [[]]"
| "split_spaces (c # cs) =
     (if c = CHR '' '' then [] # split_spaces cs
      else (case split_spaces cs of
              [] \<Rightarrow> [[c]]
            | w # ws \<Rightarrow> (c # w) # ws))"

definition codeUnits :: "string \<Rightarrow> nat list" where
  "codeUnits s = map of_char s"

fun join_spaces :: "nat list list \<Rightarrow> nat list" where
  "join_spaces [] = []"
| "join_spaces [w] = w"
| "join_spaces (w # v # ws) = w @ codeUnits '' '' @ join_spaces (v # ws)"

definition capitalize :: "string \<Rightarrow> nat list" where
  "capitalize w = (case w of [] \<Rightarrow> [] | c # cs \<Rightarrow> toUpperChar c @ codeUnits cs)"

definition formatName :: "string \<Rightarrow> nat list" where
  "formatName ident =
     join_spaces (map capitalize (split_spaces
       (map (\<lambda>c. if c = CHR ''-'' \<or> c = CHR ''_'' then CHR '' '' else c) ident)))
     @ codeUnits '' Tests''"

subsection \<open>Category inference\<close>

definition getCategoryFromFilename :: "string \<Rightarrow> string" where
  "getCategoryFromFilename filename =
     (let filenameLower = toLowerCase filename
      in if str_includes filenameLower ''login'' \<or> str_includes filenameLower ''auth''
           then ''Authentication''
         else if str_includes filenameLower ''user''
           then ''User Management''
         else if str_includes filenameLower ''cart'' \<or> str_includes filenameLower ''basket''
           then ''Shopping Cart''
         else if str_includes filenameLower ''product''
           then ''Products''
         else if str_includes filenameLower ''api''
           then ''API''
         else if str_includes filenameLower ''security'' \<or> str_includes filenameLower ''xss''
                 \<or> str_includes filenameLower ''injection''
           then ''Security''
         else if str_includes filenameLower ''checkout''
           then ''Checkout''
         else ''Functional'')"

definition getCategoryFromContext :: "string \<Rightarrow> string" where
  "getCategoryFromContext context =
     (let contextLower = toLowerCase context
      in if str_includes contextLower ''login'' \<or> str_includes contextLower ''auth''
           then ''Authentication''
         else if str_includes contextLower ''user''
           then ''User Management''
         else if str_includes contextLower ''cart'' \<or> str_includes contextLower ''basket''
           then ''Shopping Cart''
         else if str_includes contextLower ''product''
           then ''Products''
         else if str_includes contextLower ''api''
           then ''API''
         else if str_includes contextLower ''security'' \<or> str_includes contextLower ''xss''
                 \<or> str_includes contextLower ''injection''
           then ''Security''
         else if str_includes contextLower ''checkout''
           then ''Checkout''
         else ''Functional'')"

text \<open>The keyword table as the specification words it: rows in order, each with its
  keywords and its category; the first row with a keyword that occurs in the
  lower-cased text wins, and \<open>Functional\<close> is the default.\<close>

definition spec_keyword_table :: "(string list \<times> string) list" where
  "spec_keyword_table =
     [([''login'', ''auth''], ''Authentication''),
      ([''user''], ''User Management''),
      ([''cart'', ''basket''], ''Shopping Cart''),
      ([''product''], ''Products''),
      ([''api''], ''API''),
      ([''security'', ''xss'', ''injection''], ''Security''),
      ([''checkout''], ''Checkout'')]"

fun spec_first_match :: "(string list \<times> string) list \<Rightarrow> string \<Rightarrow> string" where
  "spec_first_match [] s = ''Functional''"
| "spec_first_match ((kws, cat) # rows) s =
     (if list_ex (str_includes s) kws then cat else spec_first_match rows s)"

definition spec_category :: "string \<Rightarrow> string" where
  "spec_category text = spec_first_match spec_keyword_table (toLowerCase text)"

subsection \<open>Numbers that reach \<open>Array.prototype.slice\<close>\<close>

text \<open>The limit handed to \<open>slice\<close> is what \<open>parseInt\<close> returns: an integer or NaN.
  \<open>parseInt\<close> rounds an integer beyond 2^53 to a double; a limit of that size lies
  beyond every array length on either side of zero, so the exact integer and the rounded
  one cut the same slice, and the model keeps the exact integer. Minus zero is zero.\<close>

datatype js_number = Num int | NaN

definition isWhiteSpace :: "char \<Rightarrow> bool" where
  "isWhiteSpace c = ((of_char c :: nat) \<in> {9, 10, 11, 12, 13, 32, 160})"

definition isDigit :: "char \<Rightarrow> bool" where
  "isDigit c = (48 \<le> (of_char c :: nat) \<and> (of_char c :: nat) \<le> 57)"

definition digitValue :: "char \<Rightarrow> int" where
  "digitValue c = int (of_char c) - 48"

definition digitsValue :: "string \<Rightarrow> int" where
  "digitsValue ds = foldl (\<lambda>acc c. 10 * acc + digitValue c) 0 ds"

text \<open>\<open>parseInt(str, 10)\<close>: leading white space is skipped, one sign is read, then the
  longest run of decimal digits; without a digit there the result is NaN, and whatever
  follows the digits is ignored.\<close>

definition parseInt :: "string \<Rightarrow> js_number" where
  "parseInt str =
     (let s = dropWhile isWhiteSpace str;
          sign = (case s of [] \<Rightarrow> 1 | c # _ \<Rightarrow> if c = CHR ''-'' then - 1 else (1::int));
          s' = (case s of [] \<Rightarrow> []
                | c # cs \<Rightarrow> if c = CHR ''+'' \<or> c = CHR ''-'' then cs else s);
          z = takeWhile isDigit s'
      in if z = [] then NaN else Num (sign * digitsValue z))"

text \<open>\<open>xs.slice(0, end)\<close>: NaN counts as 0, a negative end counts from the end of the
  array, and the end is clamped to the array.\<close>

definition slice0 :: "'a list \<Rightarrow> js_number \<Rightarrow> 'a list" where
  "slice0 xs end_arg =
     (let len = int (length xs);
          relativeEnd = (case end_arg of NaN \<Rightarrow> 0 | Num n \<Rightarrow> n);
          final = (if relativeEnd < 0 then max (len + relativeEnd) 0 else min relativeEnd len)
      in take (nat final) xs)"

text \<open>\<open>xs.sort(cmp)\<close>: the sort is stable (ECMAScript 2019), so for a consistent
  comparator its result is that of a stable insertion sort.\<close>

fun insert_by :: "('a \<Rightarrow> 'a \<Rightarrow> int) \<Rightarrow> 'a \<Rightarrow> 'a list \<Rightarrow> 'a list" where
  "insert_by cmp x [] = [x]"
| "insert_by cmp x (y # ys) =
     (if cmp x y \<le> 0 then x # y # ys else y # insert_by cmp x ys)"

definition array_sort :: "('a \<Rightarrow> 'a \<Rightarrow> int) \<Rightarrow> 'a list \<Rightarrow> 'a list" where
  "array_sort cmp xs = foldr (insert_by cmp) xs []"

subsection \<open>Data model\<close>

datatype run_status = Running | Completed | Error

datatype test_outcome = Passed | Failed | Skipped

record config =
  cfg_suites :: "string list"
  cfg_browser :: string
  cfg_mode :: string

record summary =
  total :: nat
  passed :: nat
  failed :: nat
  skipped :: nat
  duration :: int

record test_result =
  test_name :: "string option"
  test_fullTitle :: string
  test_status :: test_outcome
  test_duration :: int
  test_error :: "(string option \<times> string option) option"
  test_code :: "string option"
  test_category :: string

record suite_result =
  suite_name :: "nat list"
  suite_file :: string
  suite_passed :: nat
  suite_failed :: nat
  suite_skipped :: nat
  tests :: "string \<rightharpoonup> test_result"

record test_run =
  run_id :: string
  status :: run_status
  startTime :: int
  endTime :: "int option"
  config :: config
  summary :: summary
  suites :: "string \<rightharpoonup> suite_result"

definition zero_summary :: summary where
  "zero_summary = \<lparr>total = 0, passed = 0, failed = 0, skipped = 0, duration = 0\<rparr>"

subsection \<open>The store of test runs\<close>

text \<open>\<open>testResultsStore.results\<close> is an object keyed by run identifier. Its keys are
  \<open>run_<n>\<close>, never array indices, so \<open>Object.values\<close> lists the records in the order
  their keys were first inserted, and assigning to a key that exists replaces the record
  in place: an association list under \<open>AList.update\<close>. A start time is kept as the time
  value of the \<open>Date\<close>: \<open>toISOString\<close> prints it to the millisecond and \<open>new Date\<close>
  of that text reads the same value back.\<close>

type_synonym store = "(string \<times> test_run) list"

definition createRun :: "string \<Rightarrow> config \<Rightarrow> int \<Rightarrow> store \<Rightarrow> test_run \<times> store" where
  "createRun runId cfg now results =
     (let r = \<lparr>run_id = runId, status = Running, startTime = now, endTime = None,
                config = cfg, summary = zero_summary, suites = Map.empty\<rparr>
      in (r, AList.update runId r results))"

definition updateRunStatus :: "string \<Rightarrow> run_status \<Rightarrow> int \<Rightarrow> store \<Rightarrow> store" where
  "updateRunStatus runId st now results =
     (case map_of results runId of
        None \<Rightarrow> results
      | Some r \<Rightarrow>
          AList.update runId
            (if st = Completed \<or> st = Error
             then r\<lparr>status := st, endTime := Some now\<rparr>
             else r\<lparr>status := st\<rparr>)
            results)"

definition getRun :: "string \<Rightarrow> store \<Rightarrow> test_run option" where
  "getRun runId results = map_of results runId"

definition compareRuns :: "test_run \<Rightarrow> test_run \<Rightarrow> int" where
  "compareRuns a b = startTime b - startTime a"

text \<open>\<open>getRecentRuns(limit = 10)\<close>: the argument is absent (\<open>None\<close>) or a number.\<close>

definition getRecentRuns :: "js_number option \<Rightarrow> store \<Rightarrow> test_run list" where
  "getRecentRuns limit results =
     slice0 (array_sort compareRuns (map snd results))
       (case limit of None \<Rightarrow> Num 10 | Some l \<Rightarrow> l)"

text \<open>\<open>GET /api/tests/recent\<close>: the query parameter \<open>limit\<close> is absent or a string;
  absent, it is the number 10, which \<open>parseInt\<close> reads through its text \<open>''10''\<close>.\<close>

definition recentEndpoint :: "string option \<Rightarrow> store \<Rightarrow> test_run list" where
  "recentEndpoint limit results =
     getRecentRuns (Some (parseInt (case limit of None \<Rightarrow> ''10'' | Some s \<Rightarrow> s))) results"

subsection \<open>Numbers in template literals\<close>

text \<open>\<open>`${n}`\<close> for an integer \<open>n\<close> (an array index, a clock reading): its decimal
  digits, after a minus sign when it is negative.\<close>

definition digitChar :: "nat \<Rightarrow> char" where
  "digitChar d = char_of (48 + d)"

fun showNat :: "nat \<Rightarrow> string" where
  "showNat n = (if n < 10 then [digitChar n] else showNat (n div 10) @ [digitChar (n mod 10)])"

declare showNat.simps [simp del]

definition showInt :: "int \<Rightarrow> string" where
  "showInt i = (if i < 0 then CHR ''-'' # showNat (nat (- i)) else showNat (nat i))"

subsection \<open>The Mochawesome report and \<open>processTestResults\<close>\<close>

text \<open>The report as \<open>fs.readJSON\<close> returns it when it has the shape the code reads:
  \<open>results\<close>, each with a \<open>file\<close> and \<open>suites\<close>, each suite with \<open>tests\<close>. The flags
  \<open>pass\<close> and \<open>fail\<close> are kept by their truthiness; \<open>raw_duration\<close> is \<open>None\<close>
  where \<open>test.duration\<close> is absent; \<open>err\<close> is \<open>None\<close> where \<open>test.err\<close> is falsy,
  and holds \<open>err.message\<close> and \<open>err.stack\<close> otherwise.\<close>

record raw_test =
  title :: "string option"
  fullTitle :: "string option"
  pass :: bool
  fail :: bool
  raw_duration :: "int option"
  err :: "(string option \<times> string option) option"
  code :: "string option"

record raw_suite =
  suite_tests :: "raw_test list"

record raw_result =
  result_file :: string
  result_suites :: "raw_suite list"

record raw_results =
  results :: "raw_result list"

record processed_results =
  pr_summary :: summary
  pr_suites :: "string \<rightharpoonup> suite_result"

datatype js_error = TypeError

text \<open>\<open>processedResults.suites\<close> starts as \<open>{}\<close>, which inherits these properties
  from \<open>Object.prototype\<close>; all of them are truthy. For such a suite identifier the test
  \<open>!processedResults.suites[suiteId]\<close> fails, no suite record is made, and the first
  test of the block throws at \<open>.tests[testId] = ...\<close>, \<open>tests\<close> being undefined.\<close>

definition objectPrototypeKeys :: "string list" where
  "objectPrototypeKeys =
     [''constructor'', ''__proto__'', ''hasOwnProperty'', ''isPrototypeOf'',
      ''propertyIsEnumerable'', ''toLocaleString'', ''toString'', ''valueOf'',
      ''__defineGetter__'', ''__defineSetter__'', ''__lookupGetter__'', ''__lookupSetter__'']"

definition testOutcome :: "raw_test \<Rightarrow> test_outcome" where
  "testOutcome t = (if pass t then Passed else if fail t then Failed else Skipped)"

fun bumpSummary :: "test_outcome \<Rightarrow> summary \<Rightarrow> summary" where
  "bumpSummary Passed s = s\<lparr>passed := passed s + 1\<rparr>"
| "bumpSummary Failed s = s\<lparr>failed := failed s + 1\<rparr>"
| "bumpSummary Skipped s = s\<lparr>skipped := skipped s + 1\<rparr>"

fun bumpSuite :: "test_outcome \<Rightarrow> suite_result \<Rightarrow> suite_result" where
  "bumpSuite Passed s = s\<lparr>suite_passed := suite_passed s + 1\<rparr>"
| "bumpSuite Failed s = s\<lparr>suite_failed := suite_failed s + 1\<rparr>"
| "bumpSuite Skipped s = s\<lparr>suite_skipped := suite_skipped s + 1\<rparr>"

definition testDuration :: "raw_test \<Rightarrow> int" where
  "testDuration t = (case raw_duration t of None \<Rightarrow> 0 | Some d \<Rightarrow> d)"

text \<open>The body of \<open>suite.tests.forEach((test, index) => ...)\<close>. Besides the inherited
  suite keys it throws where \<open>test.fullTitle\<close> is not a string
  (\<open>context.toLowerCase()\<close> in \<open>getCategoryFromContext\<close>).\<close>

definition processTest ::
  "string \<Rightarrow> nat \<Rightarrow> raw_test \<Rightarrow> processed_results \<Rightarrow> js_error + processed_results" where
  "processTest suiteId index t acc =
     (let testId = suiteId @ ''-'' @ showNat index;
          st = testOutcome t;
          summary' = (bumpSummary st ((pr_summary acc)\<lparr>total := total (pr_summary acc) + 1\<rparr>))
                       \<lparr>duration := duration (pr_summary acc) + testDuration t\<rparr>
      in case pr_suites acc suiteId of
           None \<Rightarrow> Inl TypeError
         | Some su \<Rightarrow>
             (case fullTitle t of
                None \<Rightarrow> Inl TypeError
              | Some ft \<Rightarrow>
                  Inr (acc\<lparr>pr_summary := summary',
                           pr_suites := (pr_suites acc)(suiteId \<mapsto>
                             (bumpSuite st su)\<lparr>tests := (tests su)(testId \<mapsto>
                               \<lparr>test_name = title t,
                                test_fullTitle = ft,
                                test_status = st,
                                test_duration = testDuration t,
                                test_error = err t,
                                test_code = code t,
                                test_category = getCategoryFromContext ft\<rparr>)\<rparr>)\<rparr>)))"

fun forEachTest ::
  "string \<Rightarrow> nat \<Rightarrow> raw_test list \<Rightarrow> processed_results \<Rightarrow> js_error + processed_results" where
  "forEachTest suiteId index [] acc = Inr acc"
| "forEachTest suiteId index (t # ts) acc =
     (case processTest suiteId index t acc of
        Inl e \<Rightarrow> Inl e
      | Inr acc' \<Rightarrow> forEachTest suiteId (Suc index) ts acc')"

text \<open>\<open>result.suites.forEach(suite => suite.tests.forEach(...))\<close>: every suite's
  \<open>forEach\<close> counts its own tests from 0.\<close>

fun forEachSuite ::
  "string \<Rightarrow> raw_suite list \<Rightarrow> processed_results \<Rightarrow> js_error + processed_results" where
  "forEachSuite suiteId [] acc = Inr acc"
| "forEachSuite suiteId (s # ss) acc =
     (case forEachTest suiteId 0 (suite_tests s) acc of
        Inl e \<Rightarrow> Inl e
      | Inr acc' \<Rightarrow> forEachSuite suiteId ss acc')"

definition suiteIdOf :: "raw_result \<Rightarrow> string" where
  "suiteIdOf result = stripExtension (basename (result_file result))"

definition processResult ::
  "raw_result \<Rightarrow> processed_results \<Rightarrow> js_error + processed_results" where
  "processResult result acc =
     (let fileName = basename (result_file result);
          suiteId = stripExtension fileName;
          acc1 = (if suiteId \<notin> set objectPrototypeKeys \<and> pr_suites acc suiteId = None
                  then acc\<lparr>pr_suites := (pr_suites acc)(suiteId \<mapsto>
                         \<lparr>suite_name = formatName suiteId, suite_file = fileName,
                          suite_passed = 0, suite_failed = 0, suite_skipped = 0,
                          tests = Map.empty\<rparr>)\<rparr>
                  else acc)
      in forEachSuite suiteId (result_suites result) acc1)"

fun forEachResult ::
  "raw_result list \<Rightarrow> processed_results \<Rightarrow> js_error + processed_results" where
  "forEachResult [] acc = Inr acc"
| "forEachResult (r # rs) acc =
     (case processResult r acc of
        Inl e \<Rightarrow> Inl e
      | Inr acc' \<Rightarrow> forEachResult rs acc')"

definition processTestResults :: "raw_results \<Rightarrow> js_error + processed_results" where
  "processTestResults rawResults =
     forEachResult (results rawResults) \<lparr>pr_summary = zero_summary, pr_suites = Map.empty\<rparr>"

subsection \<open>\<open>POST /api/tests/run\<close> and the \<open>close\<close> callback\<close>

record run_request =
  req_suites :: "string list option"
  req_browser :: "string option"
  req_mode :: "string option"

record run_response =
  resp_runId :: string
  resp_status :: string

definition makeRunId :: "int \<Rightarrow> string" where
  "makeRunId now = ''run_'' @ showInt now"

fun join_commas :: "string list \<Rightarrow> string" where
  "join_commas [] = []"
| "join_commas [w] = w"
| "join_commas (w # v # ws) = w @ '','' @ join_commas (v # ws)"

definition cypressCommand :: "config \<Rightarrow> string" where
  "cypressCommand cfg =
     (let specOption =
            (if cfg_suites cfg \<noteq> [] \<and> cfg_mode cfg \<noteq> ''all''
             then ''--spec '' @ [CHR 0x22]
                    @ join_commas (map (\<lambda>suite. ''cypress/integration/'' @ suite) (cfg_suites cfg))
                    @ [CHR 0x22]
             else [])
      in ''npx cypress run --browser '' @ cfg_browser cfg @ '' '' @ specOption)"

text \<open>The synchronous part of the handler, for a body whose fields, where present, have
  the types the code expects (\<open>suites\<close> an array of strings, \<open>browser\<close> and \<open>mode\<close>
  strings); an absent field takes its default. Two clock readings are taken:
  \<open>Date.now()\<close> for the identifier and \<open>new Date()\<close> inside \<open>createRun\<close> for the
  start time. The result is the response, the command given to \<open>exec\<close> and the new
  store.\<close>

definition postRun ::
  "run_request \<Rightarrow> int \<Rightarrow> int \<Rightarrow> store \<Rightarrow> run_response \<times> string \<times> store" where
  "postRun body now_id now_start store0 =
     (let cfg = \<lparr>cfg_suites = (case req_suites body of None \<Rightarrow> [] | Some ss \<Rightarrow> ss),
                 cfg_browser = (case req_browser body of None \<Rightarrow> ''chrome'' | Some b \<Rightarrow> b),
                 cfg_mode = (case req_mode body of None \<Rightarrow> ''all'' | Some m \<Rightarrow> m)\<rparr>;
          runId = makeRunId now_id;
          (testRun, store1) = createRun runId cfg now_start store0
      in (\<lparr>resp_runId = runId, resp_status = ''running''\<rparr>, cypressCommand cfg, store1))"

text \<open>What the callback finds at \<open>cypress/results/mochawesome.json\<close>: no file, a file
  that \<open>fs.readJSON\<close> or the property reads of \<open>processTestResults\<close> throw on, or a
  report of the expected shape.\<close>

datatype report_file = NoFile | Unreadable | Report raw_results

text \<open>\<open>childProcess.on('close', async (code) => ...)\<close>. The exit code is \<open>None\<close> when a
  signal ended the process (\<open>code\<close> is \<open>null\<close>, and \<open>null !== 0\<close>). On the report path
  the record is rebuilt by the spread \<open>{...record, ...processedResults, status}\<close>, which
  reads no clock. The record of \<open>runId\<close> exists whenever the callback runs, since
  \<open>createRun\<close> ran before \<open>exec\<close> and nothing removes a record; for a store without it
  the model leaves the store as it is on the report path.\<close>

definition onClose :: "string \<Rightarrow> int option \<Rightarrow> report_file \<Rightarrow> int \<Rightarrow> store \<Rightarrow> store" where
  "onClose runId exit_code report now store0 =
     (if exit_code \<noteq> Some 0 then updateRunStatus runId Error now store0
      else case report of
             NoFile \<Rightarrow> updateRunStatus runId Completed now store0
           | Unreadable \<Rightarrow> updateRunStatus runId Error now store0
           | Report rawResults \<Rightarrow>
               (case processTestResults rawResults of
                  Inl e \<Rightarrow> updateRunStatus runId Error now store0
                | Inr processedResults \<Rightarrow>
                    (case map_of store0 runId of
                       None \<Rightarrow> store0
                     | Some r \<Rightarrow>
                         AList.update runId
                           (r\<lparr>summary := pr_summary processedResults,
                              suites := pr_suites processedResults,
                              status := Completed\<rparr>)
                           store0)))"

subsection \<open>The server as a transition system\<close>

text \<open>A state is the store together with the run identifiers of the child processes
  that have not closed yet, one entry per \<open>exec\<close>. A request adds a record and a
  process; a \<open>close\<close> event of a running process runs the callback once.\<close>

record server =
  server_store :: store
  server_pending :: "string list"

datatype event =
    PostRun run_request int int
  | Close string "int option" report_file int

definition initial_server :: server where
  "initial_server = \<lparr>server_store = [], server_pending = []\<rparr>"

fun step :: "event \<Rightarrow> server \<Rightarrow> server option" where
  "step (PostRun body now_id now_start) s =
     (case postRun body now_id now_start (server_store s) of
        (response, command, store1) \<Rightarrow>
          Some \<lparr>server_store = store1,
                server_pending = server_pending s @ [resp_runId response]\<rparr>)"
| "step (Close runId exit_code report now) s =
     (if runId \<in> set (server_pending s)
      then Some \<lparr>server_store = onClose runId exit_code report now (server_store s),
                 server_pending = remove1 runId (server_pending s)\<rparr>
      else None)"

fun run_events :: "event list \<Rightarrow> server \<Rightarrow> server option" where
  "run_events [] s = Some s"
| "run_events (e # es) s = (case step e s of None \<Rightarrow> None | Some s' \<Rightarrow> run_events es s')"

text \<open>The statuses the record of \<open>runId\<close> shows after each event, from the first event
  after which it exists.\<close>

fun status_trace :: "string \<Rightarrow> event list \<Rightarrow> server \<Rightarrow> run_status list" where
  "status_trace runId [] s = []"
| "status_trace runId (e # es) s =
     (case step e s of
        None \<Rightarrow> []
      | Some s' \<Rightarrow>
          (case getRun runId (server_store s') of
             None \<Rightarrow> status_trace runId es s'
           | Some r \<Rightarrow> status r # status_trace runId es s'))"

text \<open>A status history in which a terminal status, once shown, stays.\<close>

fun lifecycle_ok :: "run_status list \<Rightarrow> bool" where
  "lifecycle_ok [] = True"
| "lifecycle_ok [a] = True"
| "lifecycle_ok (a # b # rest) = ((a = Running \<or> b = a) \<and> lifecycle_ok (b # rest))"

fun post_clocks :: "event list \<Rightarrow> int list" where
  "post_clocks [] = []"
| "post_clocks (PostRun body now_id now_start # es) = now_id # post_clocks es"
| "post_clocks (Close runId exit_code report now # es) = post_clocks es"

subsection \<open>Reference notions and example inputs\<close>

text \<open>All leaf tests of a report, in the order \<open>processTestResults\<close> visits them.\<close>

definition allTests :: "raw_results \<Rightarrow> raw_test list" where
  "allTests rawResults = concat (map suite_tests (concat (map result_suites (results rawResults))))"

text \<open>The summary after counting a list of tests by the precedence of the flags: pass,
  else fail, else skipped.\<close>

definition countTests :: "raw_test list \<Rightarrow> summary \<Rightarrow> summary" where
  "countTests ts s =
     \<lparr>total = total s + length ts,
      passed = passed s + length (filter pass ts),
      failed = failed s + length (filter (\<lambda>t. \<not> pass t \<and> fail t) ts),
      skipped = skipped s + length (filter (\<lambda>t. \<not> pass t \<and> \<not> fail t) ts),
      duration = duration s + sum_list (map testDuration ts)\<rparr>"

text \<open>A \<open>limit\<close> text with no leading integer: after leading white space and one
  optional sign it does not begin with a decimal digit (\<open>abc\<close>, the empty text, \<open>-\<close>,
  \<open>+x1\<close>). A text that begins with digits, such as \<open>3abc\<close>, is not of this kind.\<close>

definition no_leading_integer :: "string \<Rightarrow> bool" where
  "no_leading_integer s =
     (case dropWhile isWhiteSpace s of
        [] \<Rightarrow> True
      | c # cs \<Rightarrow>
          if c = CHR ''+'' \<or> c = CHR ''-''
          then (case cs of [] \<Rightarrow> True | d # _ \<Rightarrow> \<not> isDigit d)
          else \<not> isDigit c)"

text \<open>A numeric text: a decimal integer and nothing else, that is an optional sign and
  one or more decimal digits.\<close>

definition decimal_integer_text :: "string \<Rightarrow> bool" where
  "decimal_integer_text s =
     (let ds = (case s of [] \<Rightarrow> []
                | c # cs \<Rightarrow> if c = CHR ''+'' \<or> c = CHR ''-'' then cs else s)
      in ds \<noteq> [] \<and> list_all isDigit ds)"

definition example_body :: run_request where
  "example_body = \<lparr>req_suites = None, req_browser = None, req_mode = None\<rparr>"

definition example_config :: config where
  "example_config = \<lparr>cfg_suites = [], cfg_browser = ''chrome'', cfg_mode = ''all''\<rparr>"

definition test_a :: raw_test where
  "test_a = \<lparr>title = Some ''first'', fullTitle = Some ''Login first'', pass = True, fail = False,
     raw_duration = Some 150, err = None, code = None\<rparr>"

definition test_b :: raw_test where
  "test_b = \<lparr>title = Some ''second'', fullTitle = Some ''Login second'', pass = False, fail = True,
     raw_duration = Some 20, err = Some (Some ''boom'', None), code = None\<rparr>"

definition test_c :: raw_test where
  "test_c = \<lparr>title = Some ''third'', fullTitle = Some ''Login third'', pass = False, fail = False,
     raw_duration = None, err = None, code = None\<rparr>"

definition test_d :: raw_test where
  "test_d = \<lparr>title = Some ''fourth'', fullTitle = Some ''Login fourth'', pass = True, fail = True,
     raw_duration = Some 5, err = None, code = None\<rparr>"

text \<open>One spec file with two \<open>describe\<close> blocks of one test each.\<close>

definition two_suite_report :: raw_results where
  "two_suite_report =
     \<lparr>results = [\<lparr>result_file = ''cypress/integration/login.spec.js'',
                  result_suites = [\<lparr>suite_tests = [test_a]\<rparr>, \<lparr>suite_tests = [test_b]\<rparr>]\<rparr>]\<rparr>"

definition mixed_report :: raw_results where
  "mixed_report =
     \<lparr>results = [\<lparr>result_file = ''cypress/integration/login.spec.js'',
                  result_suites = [\<lparr>suite_tests = [test_a, test_b]\<rparr>]\<rparr>,
                 \<lparr>result_file = ''cypress/integration/cart.spec.js'',
                  result_suites = [\<lparr>suite_tests = [test_c, test_d]\<rparr>]\<rparr>]\<rparr>"

definition five_runs :: store where
  "five_runs =
     snd (createRun ''run_50'' example_config 50
       (snd (createRun ''run_20'' example_config 20
         (snd (createRun ''run_40'' example_config 40
           (snd (createRun ''run_10'' example_config 10
             (snd (createRun ''run_30'' example_config 30 [])))))))))"

text \<open>A report on which \<open>processTestResults\<close> does not throw: no suite identifier
  names a property inherited from \<open>Object.prototype\<close>, and every test has a
  \<open>fullTitle\<close>.\<close>

definition well_formed_report :: "raw_results \<Rightarrow> bool" where
  "well_formed_report rawResults =
     list_all (\<lambda>r. suiteIdOf r \<notin> set objectPrototypeKeys \<and>
                   list_all (\<lambda>s. list_all (\<lambda>t. fullTitle t \<noteq> None) (suite_tests s))
                     (result_suites r))
       (results rawResults)"

text \<open>Notions for the status history of a record: its current status, the invariant
  of the server (processes that have not closed are distinct and their records are
  \<open>running\<close>), clock readings whose identifiers are not in the store yet, and a history
  that continues from a given current status.\<close>

definition statusOf :: "string \<Rightarrow> store \<Rightarrow> run_status option" where
  "statusOf runId st = map_option status (getRun runId st)"

definition server_inv :: "server \<Rightarrow> bool" where
  "server_inv s =
     (distinct (server_pending s) \<and>
      list_all (\<lambda>rid. statusOf rid (server_store s) = Some Running) (server_pending s))"

definition fresh_clocks :: "int list \<Rightarrow> server \<Rightarrow> bool" where
  "fresh_clocks ts s =
     (distinct ts \<and> list_all (\<lambda>t. statusOf (makeRunId t) (server_store s) = None) ts)"

fun history_ok :: "run_status option \<Rightarrow> run_status list \<Rightarrow> bool" where
  "history_ok None tr = ((tr = [] \<or> hd tr = Running) \<and> lifecycle_ok tr)"
| "history_ok (Some a) tr = lifecycle_ok (a # tr)"

definition collision_events :: "event list" where
  "collision_events =
     [PostRun example_body 1700000000000 1700000000000,
      PostRun example_body 1700000000000 1700000000000,
      Close (makeRunId 1700000000000) (Some 0) NoFile 1700000005000,
      Close (makeRunId 1700000000000) (Some 1) NoFile 1700000006000]"

definition separate_events :: "event list" where
  "separate_events =
     [PostRun example_body 1700000000000 1700000000000,
      PostRun example_body 1700000000001 1700000000001,
      Close (makeRunId 1700000000000) (Some 0) NoFile 1700000005000,
      Close (makeRunId 1700000000001) (Some 1) NoFile 1700000006000]"

text \<open>The summary of a record, and the second invariant of the server: the records of
  processes that have not closed have the all-zero summary.\<close>

definition summaryOf :: "string \<Rightarrow> store \<Rightarrow> summary option" where
  "summaryOf runId st = map_option summary (getRun runId st)"

definition pending_zero :: "server \<Rightarrow> bool" where
  "pending_zero s =
     list_all (\<lambda>rid. summaryOf rid (server_store s) = Some zero_summary) (server_pending s)"

text \<open>Two runs in different milliseconds, the first closing with code 0 and a report;
  and two requests in one millisecond, the first process closing with code 0 and a
  report.\<close>

definition report_then_failure_events :: "event list" where
  "report_then_failure_events =
     [PostRun example_body 1700000000000 1700000000000,
      PostRun example_body 1700000000001 1700000000001,
      Close (makeRunId 1700000000000) (Some 0) (Report mixed_report) 1700000005000]"

definition collision_report_events :: "event list" where
  "collision_report_events =
     [PostRun example_body 1700000000000 1700000000000,
      PostRun example_body 1700000000000 1700000000000,
      Close (makeRunId 1700000000000) (Some 0) (Report mixed_report) 1700000005000]"

section \<open>Run identifiers\<close>

lemma digitChar_inj: "d < 10 \<Longrightarrow> e < 10 \<Longrightarrow> digitChar d = digitChar e \<Longrightarrow> d = e"
proof -
  assume d: "d < 10" and e: "e < 10" and eq: "digitChar d = digitChar e"
  from eq have "(of_char (digitChar d) :: nat) = of_char (digitChar e)" by simp
  then have "(48 + d) mod 256 = (48 + e) mod 256" by (simp add: digitChar_def)
  with d e show "d = e" by simp
qed

lemma showNat_nonempty: "showNat n \<noteq> []"
  by (subst showNat.simps) simp

lemma showNat_length_one: "length (showNat n) = Suc 0 \<longleftrightarrow> n < 10"
  by (subst showNat.simps) (simp add: showNat_nonempty)

lemma showNat_inj: "showNat n = showNat m \<Longrightarrow> n = m"
proof (induction n arbitrary: m rule: showNat.induct)
  case (1 n)
  show ?case
  proof (cases "n < 10")
    case True
    with "1.prems" have "length (showNat m) = Suc 0" using showNat_length_one[of n] by simp
    then have m: "m < 10" by (simp add: showNat_length_one)
    from "1.prems" True m have "digitChar n = digitChar m"
      by (subst (asm) showNat.simps, subst (asm) (2) showNat.simps) simp
    with True m show ?thesis by (rule digitChar_inj)
  next
    case False
    then have "length (showNat n) \<noteq> Suc 0" by (simp add: showNat_length_one)
    with "1.prems" have m: "\<not> m < 10" by (simp add: showNat_length_one)
    from "1.prems" False m
    have eq: "showNat (n div 10) @ [digitChar (n mod 10)] = showNat (m div 10) @ [digitChar (m mod 10)]"
      by (subst (asm) showNat.simps, subst (asm) (2) showNat.simps) simp
    then have a: "showNat (n div 10) = showNat (m div 10)"
      and b: "digitChar (n mod 10) = digitChar (m mod 10)" by simp_all
    from "1.IH"[OF False a] have "n div 10 = m div 10" .
    moreover from b have "n mod 10 = m mod 10" by (intro digitChar_inj) simp_all
    ultimately show ?thesis by (metis div_mult_mod_eq)
  qed
qed

lemma digitChar_not_minus: "d < 10 \<Longrightarrow> digitChar d \<noteq> CHR ''-''"
proof
  assume d: "d < 10" and eq: "digitChar d = CHR ''-''"
  from eq have "(of_char (digitChar d) :: nat) = of_char (CHR ''-'')" by simp
  then have "(48 + d) mod 256 = 45" by (simp add: digitChar_def)
  with d show False by simp
qed

lemma showNat_hd_not_minus: "hd (showNat n) \<noteq> CHR ''-''"
proof (induction n rule: showNat.induct)
  case (1 n)
  show ?case
  proof (cases "n < 10")
    case True
    then show ?thesis by (subst showNat.simps) (simp add: digitChar_not_minus)
  next
    case False
    with 1 show ?thesis by (subst showNat.simps) (simp add: showNat_nonempty)
  qed
qed

lemma showInt_inj: "showInt i = showInt j \<Longrightarrow> i = j"
proof -
  assume eq: "showInt i = showInt j"
  have neg: "showNat a \<noteq> CHR ''-'' # bs" for a bs
    using showNat_hd_not_minus[of a] by (metis list.sel(1))
  show "i = j"
  proof (cases "i < 0")
    case True
    show ?thesis
    proof (cases "j < 0")
      case j: True
      with True eq have "showNat (nat (- i)) = showNat (nat (- j))" by (simp add: showInt_def)
      then have "nat (- i) = nat (- j)" by (rule showNat_inj)
      with True j show ?thesis by simp
    next
      case False
      with True eq neg show ?thesis by (simp add: showInt_def) metis
    qed
  next
    case False
    show ?thesis
    proof (cases "j < 0")
      case True
      with False eq neg show ?thesis by (simp add: showInt_def)
    next
      case j: False
      with False eq have "showNat (nat i) = showNat (nat j)" by (simp add: showInt_def)
      then have "nat i = nat j" by (rule showNat_inj)
      with False j show ?thesis by simp
    qed
  qed
qed

lemma makeRunId_eq_iff: "makeRunId a = makeRunId b \<longleftrightarrow> a = b"
  by (auto simp: makeRunId_def dest: showInt_inj)

lemma postRun_runId: "resp_runId (fst (postRun body now_id now_start st)) = makeRunId now_id"
  by (simp add: postRun_def Let_def createRun_def)

text \<open>
  C1 (amended). Two run requests receive distinct run identifiers exactly when their
  \<open>Date.now()\<close> readings differ: the identifier is \<open>run_\<close> followed by the decimal
  text of the reading, and that text determines the reading. Requests that read the same
  millisecond receive the same identifier.
\<close>

theorem run_ids_equal_iff_same_clock_reading:
  "resp_runId (fst (postRun body1 now1 start1 store1))
     = resp_runId (fst (postRun body2 now2 start2 store2)) \<longleftrightarrow> now1 = now2"
  by (simp add: postRun_runId makeRunId_eq_iff)

text \<open>
  C1, as stated, fails: two requests in the same millisecond are given the same
  identifier, and the second record replaces the first, so the store holds one record.
\<close>

theorem run_ids_collide_within_one_millisecond:
  "resp_runId (fst (postRun example_body 1700000000000 1700000000000 []))
     = resp_runId (fst (postRun example_body 1700000000000 1700000000000
         (snd (snd (postRun example_body 1700000000000 1700000000000 [])))))
   \<and> length (snd (snd (postRun example_body 1700000000000 1700000000000
         (snd (snd (postRun example_body 1700000000000 1700000000000 [])))))) = 1"
  by (simp add: postRun_def createRun_def Let_def)

section \<open>The store and the \<open>close\<close> callback\<close>

lemma getRun_updateRunStatus_same:
  "getRun runId st = Some r \<Longrightarrow> t \<noteq> Running \<Longrightarrow>
   getRun runId (updateRunStatus runId t now st) = Some (r\<lparr>status := t, endTime := Some now\<rparr>)"
  by (cases t) (simp_all add: getRun_def updateRunStatus_def update_conv')

lemma getRun_updateRunStatus_other:
  "rid \<noteq> runId \<Longrightarrow> getRun rid (updateRunStatus runId t now st) = getRun rid st"
  by (simp add: getRun_def updateRunStatus_def update_conv' split: option.splits)

lemma getRun_createRun_same:
  "getRun runId (snd (createRun runId cfg now st)) =
     Some \<lparr>run_id = runId, status = Running, startTime = now, endTime = None,
           config = cfg, summary = zero_summary, suites = Map.empty\<rparr>"
  by (simp add: getRun_def createRun_def Let_def update_conv')

lemma getRun_createRun_other:
  "rid \<noteq> runId \<Longrightarrow> getRun rid (snd (createRun runId cfg now st)) = getRun rid st"
  by (simp add: getRun_def createRun_def Let_def update_conv')

text \<open>On a nonzero exit code (or a signal) the callback is
  \<open>updateRunStatus(runId, 'error')\<close>, whatever is at the report path: the record keeps
  its summary and suites.\<close>

lemma onClose_nonzero_exit:
  assumes "exit_code \<noteq> Some 0" and "getRun runId st = Some r"
  shows "getRun runId (onClose runId exit_code report now st)
           = Some (r\<lparr>status := Error, endTime := Some now\<rparr>)
         \<and> onClose runId exit_code report now st = updateRunStatus runId Error now st"
  using assms
  by (simp add: onClose_def getRun_updateRunStatus_same)

text \<open>On exit code 0 without a report file the callback is
  \<open>updateRunStatus(runId, 'completed')\<close>.\<close>

lemma onClose_missing_report:
  assumes "getRun runId st = Some r"
  shows "getRun runId (onClose runId (Some 0) NoFile now st)
           = Some (r\<lparr>status := Completed, endTime := Some now\<rparr>)
         \<and> onClose runId (Some 0) NoFile now st = updateRunStatus runId Completed now st"
  using assms
  by (simp add: onClose_def getRun_updateRunStatus_same)

section \<open>Category inference\<close>

text \<open>
  C8. Both category helpers compute the first match in the ordered keyword table
  (login/auth, user, cart/basket, product, api, security/xss/injection, checkout, else
  Functional) on the lower-cased text. In particular \<open>sql-injection.spec\<close> and the test
  title "should test basic SQL injection" are Security, \<open>user-management.spec\<close> is User
  Management, and in \<open>api-cart-security\<close> the earlier row (cart) wins.
\<close>

theorem category_follows_ordered_keyword_table:
  "getCategoryFromFilename filename = spec_category filename
   \<and> getCategoryFromContext context = spec_category context
   \<and> getCategoryFromFilename ''sql-injection.spec'' = ''Security''
   \<and> getCategoryFromContext ''should test basic SQL injection'' = ''Security''
   \<and> getCategoryFromFilename ''user-management.spec'' = ''User Management''
   \<and> getCategoryFromFilename ''api-cart-security'' = ''Shopping Cart''"
proof -
  have a: "getCategoryFromFilename filename = spec_category filename"
    by (simp add: getCategoryFromFilename_def spec_category_def spec_keyword_table_def Let_def)
  have b: "getCategoryFromContext context = spec_category context"
    by (simp add: getCategoryFromContext_def spec_category_def spec_keyword_table_def Let_def)
  have c: "getCategoryFromFilename ''sql-injection.spec'' = ''Security''" by code_simp
  have d: "getCategoryFromContext ''should test basic SQL injection'' = ''Security''" by code_simp
  have e: "getCategoryFromFilename ''user-management.spec'' = ''User Management''" by code_simp
  have f: "getCategoryFromFilename ''api-cart-security'' = ''Shopping Cart''" by code_simp
  from a b c d e f show ?thesis by blast
qed

section \<open>Recent runs\<close>

lemma insert_by_compareRuns:
  "insert_by compareRuns x ys = insort_key (\<lambda>r. - startTime r) x ys"
  by (induction ys) (auto simp: compareRuns_def)

lemma array_sort_compareRuns:
  "array_sort compareRuns xs = sort_key (\<lambda>r. - startTime r) xs"
  by (induction xs) (simp_all add: array_sort_def insert_by_compareRuns)

lemma array_sort_descending:
  "sorted_wrt (\<lambda>a b. startTime b \<le> startTime a) (array_sort compareRuns xs)"
proof -
  have "sorted (map (\<lambda>r. - startTime r) (sort_key (\<lambda>r. - startTime r) xs))"
    by (rule sorted_sort_key)
  then show ?thesis by (simp add: array_sort_compareRuns sorted_map)
qed

lemma mset_array_sort: "mset (array_sort compareRuns xs) = mset xs"
  by (simp add: array_sort_compareRuns)

lemma length_array_sort: "length (array_sort compareRuns xs) = length xs"
  by (simp add: array_sort_compareRuns)

lemma slice0_nat: "slice0 xs (Num (int n)) = take n xs"
  by (simp add: slice0_def Let_def min_def)

lemma slice0_negative: "slice0 xs (Num (- int k)) = (if k = 0 then [] else take (length xs - k) xs)"
proof -
  have "nat (int (length xs) - int k) = length xs - k" by linarith
  then show ?thesis by (simp add: slice0_def Let_def max_def)
qed

lemma slice0_NaN: "slice0 xs NaN = []"
  by (simp add: slice0_def)

text \<open>
  C7. For every store and every limit \<open>n\<close> (a count), \<open>getRecentRuns\<close> returns the
  first \<open>n\<close> of the store's runs sorted by start time descending: the result is sorted
  descending, it has \<open>min n (number of runs)\<close> entries, the default limit is 10, and on a
  store of 5 runs the limit 3 gives exactly 3 runs.
\<close>

theorem recent_runs_sorted_descending_and_truncated:
  "getRecentRuns (Some (Num (int n))) st = take n (array_sort compareRuns (map snd st))
   \<and> sorted_wrt (\<lambda>a b. startTime b \<le> startTime a) (array_sort compareRuns (map snd st))
   \<and> mset (array_sort compareRuns (map snd st)) = mset (map snd st)
   \<and> sorted_wrt (\<lambda>a b. startTime b \<le> startTime a) (getRecentRuns (Some (Num (int n))) st)
   \<and> length (getRecentRuns (Some (Num (int n))) st) = min n (length st)
   \<and> getRecentRuns None st = getRecentRuns (Some (Num 10)) st
   \<and> (length st = 5 \<longrightarrow> length (getRecentRuns (Some (Num 3)) st) = 3)"
proof -
  have a: "getRecentRuns (Some (Num (int n))) st = take n (array_sort compareRuns (map snd st))" for n
    by (simp add: getRecentRuns_def slice0_nat)
  have b: "sorted_wrt (\<lambda>a b. startTime b \<le> startTime a) (array_sort compareRuns (map snd st))"
    by (rule array_sort_descending)
  have c: "sorted_wrt (\<lambda>a b. startTime b \<le> startTime a) (getRecentRuns (Some (Num (int n))) st)"
    unfolding a using b by (rule sorted_wrt_take)
  have d: "length (getRecentRuns (Some (Num (int n))) st) = min n (length st)" for n
    unfolding a by (simp add: length_array_sort min.commute)
  have e: "getRecentRuns None st = getRecentRuns (Some (Num 10)) st"
    by (simp add: getRecentRuns_def)
  have f: "length st = 5 \<longrightarrow> length (getRecentRuns (Some (Num 3)) st) = 3"
    using d[of 3] by simp
  from a b c d e f mset_array_sort show ?thesis by blast
qed

theorem recent_runs_sorted_descending_and_truncated_witness:
  "length five_runs = 5
   \<and> map run_id (getRecentRuns (Some (Num 3)) five_runs) = [''run_50'', ''run_40'', ''run_30'']
   \<and> length (getRecentRuns (Some (Num 3)) five_runs) = 3"
proof -
  have l: "length five_runs = 5"
    by (simp add: five_runs_def createRun_def Let_def)
  have m: "map run_id (getRecentRuns (Some (Num 3)) five_runs) = [''run_50'', ''run_40'', ''run_30'']"
    by (simp add: five_runs_def createRun_def Let_def getRecentRuns_def slice0_def
          array_sort_def compareRuns_def)
  have "length five_runs = 5 \<longrightarrow> length (getRecentRuns (Some (Num 3)) five_runs) = 3"
    using recent_runs_sorted_descending_and_truncated [of 3 five_runs] by blast
  with l have "length (getRecentRuns (Some (Num 3)) five_runs) = 3" by blast
  with l m show ?thesis by simp
qed

text \<open>A negative limit is outside C7: \<open>slice\<close> then counts from the end of the array,
  so the \<open>k\<close> oldest runs are left out.\<close>

lemma recent_runs_negative_limit:
  "0 < k \<Longrightarrow> getRecentRuns (Some (Num (- int k))) st
     = take (length st - k) (array_sort compareRuns (map snd st))"
  by (simp add: getRecentRuns_def slice0_negative length_array_sort)

lemma isDigit_not_sign: "isDigit c \<Longrightarrow> c \<noteq> CHR ''+'' \<and> c \<noteq> CHR ''-''"
  by (auto simp: isDigit_def)

lemma takeWhile_isDigit_Nil: "takeWhile isDigit cs = [] \<longleftrightarrow> (case cs of [] \<Rightarrow> True | d # _ \<Rightarrow> \<not> isDigit d)"
  by (cases cs) simp_all

lemma parseInt_NaN_iff: "parseInt s = NaN \<longleftrightarrow> no_leading_integer s"
proof (cases "dropWhile isWhiteSpace s")
  case Nil
  show ?thesis unfolding parseInt_def no_leading_integer_def Let_def Nil by simp
next
  case (Cons c cs)
  show ?thesis
  proof (cases "c = CHR ''+'' \<or> c = CHR ''-''")
    case True
    then show ?thesis unfolding parseInt_def no_leading_integer_def Let_def Cons
      by (simp add: takeWhile_isDigit_Nil)
  next
    case False
    then show ?thesis unfolding parseInt_def no_leading_integer_def Let_def Cons
      by simp
  qed
qed

text \<open>
  C10 (amended). When the \<open>limit\<close> query parameter is a text with no leading integer
  (after white space and an optional sign it does not begin with a decimal digit),
  \<open>parseInt\<close> yields NaN and \<open>GET /api/tests/recent\<close> returns the empty array,
  whatever the store holds: neither the default of 10 runs nor an error.
\<close>

theorem limit_without_leading_integer_returns_empty_array:
  "no_leading_integer s \<Longrightarrow> parseInt s = NaN \<and> recentEndpoint (Some s) st = []"
  using parseInt_NaN_iff [of s]
  by (simp add: recentEndpoint_def getRecentRuns_def slice0_NaN)

theorem limit_without_leading_integer_returns_empty_array_witness:
  "no_leading_integer ''abc'' \<and> parseInt ''abc'' = NaN
   \<and> recentEndpoint (Some ''abc'') five_runs = []"
proof -
  have h: "no_leading_integer ''abc''"
    by (simp add: no_leading_integer_def isWhiteSpace_def isDigit_def)
  from limit_without_leading_integer_returns_empty_array [OF h, of five_runs] h
  show ?thesis by simp
qed

text \<open>
  C10, as stated, fails: \<open>3abc\<close> is not a numeric text, yet \<open>parseInt\<close> reads its
  leading 3 and the endpoint returns the three most recent of five runs.
\<close>

theorem non_numeric_limit_with_leading_digits_returns_runs:
  "\<not> decimal_integer_text ''3abc''
   \<and> parseInt ''3abc'' = Num 3
   \<and> map run_id (recentEndpoint (Some ''3abc'') five_runs) = [''run_50'', ''run_40'', ''run_30'']"
proof -
  have a: "\<not> decimal_integer_text ''3abc''"
    by (simp add: decimal_integer_text_def isDigit_def)
  have b: "parseInt ''3abc'' = Num 3"
    by (simp add: parseInt_def isWhiteSpace_def isDigit_def digitsValue_def digitValue_def)
  have c: "map run_id (getRecentRuns (Some (Num 3)) five_runs) = [''run_50'', ''run_40'', ''run_30'']"
    by (simp add: five_runs_def createRun_def Let_def getRecentRuns_def slice0_def
          array_sort_def compareRuns_def)
  from a b c show ?thesis by (simp add: recentEndpoint_def)
qed

text \<open>A text that does have a leading integer is read as that integer.\<close>

lemma parseInt_leading_integer:
  "\<not> no_leading_integer s \<Longrightarrow> \<exists>n. parseInt s = Num n"
  using parseInt_NaN_iff [of s] by (cases "parseInt s") simp_all

section \<open>Report processing\<close>

lemma countTests_Nil: "countTests [] s = s"
  by (simp add: countTests_def)

lemma countTests_append: "countTests (xs @ ys) s = countTests ys (countTests xs s)"
  by (simp add: countTests_def)

lemma processTest_summary:
  "processTest suiteId index t acc = Inr acc' \<Longrightarrow> pr_summary acc' = countTests [t] (pr_summary acc)"
  by (cases "testOutcome t")
     (auto simp: processTest_def Let_def countTests_def testOutcome_def
           split: option.splits if_splits)

lemma forEachTest_summary:
  "forEachTest suiteId index ts acc = Inr acc' \<Longrightarrow> pr_summary acc' = countTests ts (pr_summary acc)"
proof (induction ts arbitrary: index acc)
  case Nil
  then show ?case by (simp add: countTests_Nil)
next
  case (Cons t ts)
  from Cons.prems obtain acc1 where
    a: "processTest suiteId index t acc = Inr acc1" and
    b: "forEachTest suiteId (Suc index) ts acc1 = Inr acc'"
    by (auto split: sum.splits)
  from Cons.IH[OF b] processTest_summary[OF a]
  show ?case using countTests_append[of "[t]" ts] by simp
qed

lemma forEachSuite_summary:
  "forEachSuite suiteId ss acc = Inr acc' \<Longrightarrow>
   pr_summary acc' = countTests (concat (map suite_tests ss)) (pr_summary acc)"
proof (induction ss arbitrary: acc)
  case Nil
  then show ?case by (simp add: countTests_Nil)
next
  case (Cons s ss)
  from Cons.prems obtain acc1 where
    a: "forEachTest suiteId 0 (suite_tests s) acc = Inr acc1" and
    b: "forEachSuite suiteId ss acc1 = Inr acc'"
    by (auto split: sum.splits)
  from Cons.IH[OF b] forEachTest_summary[OF a]
  show ?case by (simp add: countTests_append)
qed

lemma processResult_summary:
  "processResult r acc = Inr acc' \<Longrightarrow>
   pr_summary acc' = countTests (concat (map suite_tests (result_suites r))) (pr_summary acc)"
  by (auto simp: processResult_def Let_def dest!: forEachSuite_summary split: if_splits)

lemma forEachResult_summary:
  "forEachResult rs acc = Inr acc' \<Longrightarrow>
   pr_summary acc' = countTests (concat (map suite_tests (concat (map result_suites rs)))) (pr_summary acc)"
proof (induction rs arbitrary: acc)
  case Nil
  then show ?case by (simp add: countTests_Nil)
next
  case (Cons r rs)
  from Cons.prems obtain acc1 where
    a: "processResult r acc = Inr acc1" and
    b: "forEachResult rs acc1 = Inr acc'"
    by (auto split: sum.splits)
  from Cons.IH[OF b] processResult_summary[OF a]
  show ?case by (simp add: countTests_append)
qed

lemma processTestResults_summary:
  "processTestResults rawResults = Inr pr \<Longrightarrow>
   pr_summary pr = countTests (allTests rawResults) zero_summary"
  by (simp add: processTestResults_def allTests_def forEachResult_summary)

lemma filter_partition3:
  "length ts = length (filter pass ts) + length (filter (\<lambda>t. \<not> pass t \<and> fail t) ts)
     + length (filter (\<lambda>t. \<not> pass t \<and> \<not> fail t) ts)"
  by (induction ts) auto

text \<open>
  C5. Whenever \<open>processTestResults\<close> returns, the summary's total is exactly
  passed + failed + skipped; the total is the number of leaf tests of the report, and
  each test is counted by precedence: passed when its pass flag is set, else failed when
  its fail flag is set, else skipped.
\<close>

theorem summary_total_is_sum_of_outcomes:
  assumes "processTestResults rawResults = Inr pr"
  shows "total (pr_summary pr) = passed (pr_summary pr) + failed (pr_summary pr) + skipped (pr_summary pr)
       \<and> total (pr_summary pr) = length (allTests rawResults)
       \<and> passed (pr_summary pr) = length (filter pass (allTests rawResults))
       \<and> failed (pr_summary pr) = length (filter (\<lambda>t. \<not> pass t \<and> fail t) (allTests rawResults))
       \<and> skipped (pr_summary pr) = length (filter (\<lambda>t. \<not> pass t \<and> \<not> fail t) (allTests rawResults))
       \<and> testOutcome t = (if pass t then Passed else if fail t then Failed else Skipped)"
  using processTestResults_summary[OF assms] filter_partition3[of "allTests rawResults"]
  by (simp add: countTests_def zero_summary_def testOutcome_def)

lemma mixed_report_processed: "\<not> isl (processTestResults mixed_report)"
  by code_simp

theorem summary_total_is_sum_of_outcomes_witness:
  "\<not> isl (processTestResults mixed_report)
   \<and> total (pr_summary (projr (processTestResults mixed_report))) = 4
   \<and> passed (pr_summary (projr (processTestResults mixed_report))) = 2
   \<and> failed (pr_summary (projr (processTestResults mixed_report))) = 1
   \<and> skipped (pr_summary (projr (processTestResults mixed_report))) = 1"
proof -
  have h: "processTestResults mixed_report = Inr (projr (processTestResults mixed_report))"
    using mixed_report_processed by simp
  have l: "allTests mixed_report = [test_a, test_b, test_c, test_d]"
    by (simp add: allTests_def mixed_report_def)
  from summary_total_is_sum_of_outcomes [OF h] mixed_report_processed
  show ?thesis
    by (simp add: l test_a_def test_b_def test_c_def test_d_def)
qed

text \<open>
  C4. The claim asks for test identifiers \<open>suiteId-index\<close> whose index
  continues across the nested suites of a file block. The code takes the index from the
  inner \<open>forEach\<close>, which restarts at 0 in every nested suite: for one file with two
  suites of one test each, both tests get \<open>login.spec-0\<close>, the second entry overwrites
  the first, and no \<open>login.spec-1\<close> exists, while the suite counters count both tests.
\<close>

theorem nested_suites_restart_test_index:
  "(case processTestResults two_suite_report of
      Inl e \<Rightarrow> None
    | Inr pr \<Rightarrow>
        map_option (\<lambda>su. (suite_passed su, suite_failed su,
                          map_option test_name (tests su ''login.spec-0''),
                          map_option test_name (tests su ''login.spec-1'')))
          (pr_suites pr ''login.spec''))
   = Some (1, 1, Some (Some ''second''), None)"
  by code_simp

text \<open>On a well-formed report the processing returns a result.\<close>

lemma processTest_returns:
  assumes "pr_suites acc suiteId \<noteq> None" and "fullTitle t \<noteq> None"
  shows "\<exists>acc'. processTest suiteId index t acc = Inr acc' \<and> pr_suites acc' suiteId \<noteq> None"
  using assms by (auto simp: processTest_def Let_def)

lemma forEachTest_returns:
  assumes "pr_suites acc suiteId \<noteq> None" and "list_all (\<lambda>t. fullTitle t \<noteq> None) ts"
  shows "\<exists>acc'. forEachTest suiteId index ts acc = Inr acc' \<and> pr_suites acc' suiteId \<noteq> None"
  using assms
proof (induction ts arbitrary: index acc)
  case Nil
  then show ?case by simp
next
  case (Cons t ts)
  from Cons.prems have "fullTitle t \<noteq> None" and rest: "list_all (\<lambda>t. fullTitle t \<noteq> None) ts"
    by simp_all
  with Cons.prems(1) obtain acc1 where
    a: "processTest suiteId index t acc = Inr acc1" and b: "pr_suites acc1 suiteId \<noteq> None"
    using processTest_returns by blast
  from Cons.IH[OF b rest, of "Suc index"] a show ?case by simp
qed

lemma forEachSuite_returns:
  assumes "pr_suites acc suiteId \<noteq> None"
    and "list_all (\<lambda>s. list_all (\<lambda>t. fullTitle t \<noteq> None) (suite_tests s)) ss"
  shows "\<exists>acc'. forEachSuite suiteId ss acc = Inr acc' \<and> pr_suites acc' suiteId \<noteq> None"
  using assms
proof (induction ss arbitrary: acc)
  case Nil
  then show ?case by simp
next
  case (Cons s ss)
  from Cons.prems have h: "list_all (\<lambda>t. fullTitle t \<noteq> None) (suite_tests s)"
    and rest: "list_all (\<lambda>s. list_all (\<lambda>t. fullTitle t \<noteq> None) (suite_tests s)) ss"
    by simp_all
  from forEachTest_returns[OF Cons.prems(1) h, of 0] obtain acc1 where
    a: "forEachTest suiteId 0 (suite_tests s) acc = Inr acc1" and b: "pr_suites acc1 suiteId \<noteq> None"
    by blast
  from Cons.IH[OF b rest] a show ?case by simp
qed

lemma processResult_returns:
  assumes "suiteIdOf r \<notin> set objectPrototypeKeys"
    and "list_all (\<lambda>s. list_all (\<lambda>t. fullTitle t \<noteq> None) (suite_tests s)) (result_suites r)"
  shows "\<exists>acc'. processResult r acc = Inr acc'"
proof (cases "pr_suites acc (suiteIdOf r) = None")
  case True
  let ?acc1 = "acc\<lparr>pr_suites := (pr_suites acc)(suiteIdOf r \<mapsto>
                 \<lparr>suite_name = formatName (suiteIdOf r), suite_file = basename (result_file r),
                  suite_passed = 0, suite_failed = 0, suite_skipped = 0,
                  tests = Map.empty\<rparr>)\<rparr>"
  have "pr_suites ?acc1 (suiteIdOf r) \<noteq> None" by simp
  from forEachSuite_returns[OF this assms(2)] assms(1) True show ?thesis
    by (auto simp: processResult_def Let_def suiteIdOf_def)
next
  case False
  from forEachSuite_returns[OF False assms(2)] False show ?thesis
    by (auto simp: processResult_def Let_def suiteIdOf_def)
qed

lemma forEachResult_returns:
  assumes "list_all (\<lambda>r. suiteIdOf r \<notin> set objectPrototypeKeys \<and>
                   list_all (\<lambda>s. list_all (\<lambda>t. fullTitle t \<noteq> None) (suite_tests s))
                     (result_suites r)) rs"
  shows "\<exists>acc'. forEachResult rs acc = Inr acc'"
  using assms
proof (induction rs arbitrary: acc)
  case Nil
  then show ?case by simp
next
  case (Cons r rs)
  from Cons.prems processResult_returns[of r acc] obtain acc1 where
    a: "processResult r acc = Inr acc1" by auto
  from Cons.prems have "list_all (\<lambda>r. suiteIdOf r \<notin> set objectPrototypeKeys \<and>
                   list_all (\<lambda>s. list_all (\<lambda>t. fullTitle t \<noteq> None) (suite_tests s))
                     (result_suites r)) rs" by simp
  from Cons.IH[OF this, of acc1] a show ?case by simp
qed

lemma processTestResults_returns:
  "well_formed_report rawResults \<Longrightarrow> \<exists>pr. processTestResults rawResults = Inr pr"
  unfolding well_formed_report_def processTestResults_def by (rule forEachResult_returns)

section \<open>The life cycle of a run\<close>

lemma getRun_update_same: "getRun k (AList.update k v st) = Some v"
  by (simp add: getRun_def update_conv')

lemma getRun_update_other: "rid \<noteq> k \<Longrightarrow> getRun rid (AList.update k v st) = getRun rid st"
  by (simp add: getRun_def update_conv')

lemma getRun_onClose_other:
  "rid \<noteq> runId \<Longrightarrow> getRun rid (onClose runId exit_code report now st) = getRun rid st"
proof -
  assume ne: "rid \<noteq> runId"
  have u: "getRun rid (updateRunStatus runId t now st) = getRun rid st" for t
    using ne by (rule getRun_updateRunStatus_other)
  have m: "getRun rid (case map_of st runId of None \<Rightarrow> st | Some r \<Rightarrow> AList.update runId (f r) st)
             = getRun rid st" for f
    using ne by (cases "map_of st runId") (simp_all add: getRun_update_other)
  show ?thesis
    unfolding onClose_def
    by (cases report; cases "exit_code = Some 0")
       (simp_all add: u m split: sum.splits)
qed

lemma statusOf_onClose_other:
  "rid \<noteq> runId \<Longrightarrow> statusOf rid (onClose runId exit_code report now st) = statusOf rid st"
  by (simp add: statusOf_def getRun_onClose_other)

lemma getRun_updateRunStatus_exists:
  "getRun runId st = Some r \<Longrightarrow> \<exists>r'. getRun runId (updateRunStatus runId t now st) = Some r'"
  by (simp add: getRun_def updateRunStatus_def update_conv')

lemma getRun_onClose_exists:
  "getRun runId st = Some r \<Longrightarrow> \<exists>r'. getRun runId (onClose runId exit_code report now st) = Some r'"
proof -
  assume r: "getRun runId st = Some r"
  have u: "\<exists>r'. getRun runId (updateRunStatus runId t now st) = Some r'" for t
    using r by (rule getRun_updateRunStatus_exists)
  have m: "\<exists>r'. getRun runId (case map_of st runId of None \<Rightarrow> st
                                | Some r \<Rightarrow> AList.update runId (f r) st) = Some r'" for f
    using r by (cases "map_of st runId") (simp_all add: getRun_update_same)
  show ?thesis
  proof (cases "exit_code = Some 0")
    case False
    then show ?thesis using u by (simp add: onClose_def)
  next
    case True
    show ?thesis
    proof (cases report)
      case NoFile
      with True show ?thesis using u by (simp add: onClose_def)
    next
      case Unreadable
      with True show ?thesis using u by (simp add: onClose_def)
    next
      case (Report rawResults)
      show ?thesis
      proof (cases "processTestResults rawResults")
        case (Inl e)
        with True Report show ?thesis using u by (simp add: onClose_def)
      next
        case (Inr pr)
        with True Report show ?thesis using m by (simp add: onClose_def)
      qed
    qed
  qed
qed

lemma statusOf_onClose_exists:
  "statusOf runId st \<noteq> None \<Longrightarrow> statusOf runId (onClose runId exit_code report now st) \<noteq> None"
proof -
  assume "statusOf runId st \<noteq> None"
  then obtain r where "getRun runId st = Some r" by (auto simp: statusOf_def)
  from getRun_onClose_exists[OF this]
  obtain r' where "getRun runId (onClose runId exit_code report now st) = Some r'" by blast
  then show ?thesis by (simp add: statusOf_def)
qed

lemma postRun_store:
  "snd (snd (postRun body now_id now_start st))
     = snd (createRun (makeRunId now_id)
              \<lparr>cfg_suites = (case req_suites body of None \<Rightarrow> [] | Some ss \<Rightarrow> ss),
               cfg_browser = (case req_browser body of None \<Rightarrow> ''chrome'' | Some b \<Rightarrow> b),
               cfg_mode = (case req_mode body of None \<Rightarrow> ''all'' | Some m \<Rightarrow> m)\<rparr>
              now_start st)"
  by (simp add: postRun_def Let_def split: prod.splits)

lemma step_PostRun:
  "step (PostRun body now_id now_start) s
     = Some \<lparr>server_store = snd (snd (postRun body now_id now_start (server_store s))),
             server_pending = server_pending s @ [makeRunId now_id]\<rparr>"
  using postRun_runId[of body now_id now_start "server_store s"]
  by (simp split: prod.splits) (metis fst_conv)

lemma statusOf_postRun_same:
  "statusOf (makeRunId now_id) (snd (snd (postRun body now_id now_start st))) = Some Running"
  by (simp add: statusOf_def postRun_store getRun_createRun_same)

lemma statusOf_postRun_other:
  "rid \<noteq> makeRunId now_id \<Longrightarrow> statusOf rid (snd (snd (postRun body now_id now_start st))) = statusOf rid st"
  by (simp add: statusOf_def postRun_store getRun_createRun_other)

lemma status_trace_Cons:
  "status_trace runId (e # es) s =
     (case step e s of
        None \<Rightarrow> []
      | Some s' \<Rightarrow>
          (case statusOf runId (server_store s') of
             None \<Rightarrow> status_trace runId es s'
           | Some a \<Rightarrow> a # status_trace runId es s'))"
  by (simp add: statusOf_def split: option.splits)

lemma history_step:
  assumes ih: "history_ok new tr"
    and same: "new = old \<or> (old = Some Running \<and> new \<noteq> None) \<or> (old = None \<and> new = Some Running)"
  shows "history_ok old (case new of None \<Rightarrow> tr | Some a \<Rightarrow> a # tr)"
proof (cases new)
  case None
  with ih same show ?thesis by auto
next
  case (Some b)
  with ih have l: "lifecycle_ok (b # tr)" by simp
  from same Some consider "old = Some b" | "old = Some Running" | "old = None" "b = Running"
    by auto
  then show ?thesis
  proof cases
    case 1
    with Some l show ?thesis by simp
  next
    case 2
    with Some l show ?thesis by simp
  next
    case 3
    with Some l show ?thesis by simp
  qed
qed

lemma status_trace_history_ok:
  "server_inv s \<Longrightarrow> fresh_clocks (post_clocks evs) s \<Longrightarrow>
   history_ok (statusOf rid (server_store s)) (status_trace rid evs s)"
proof (induction evs arbitrary: s)
  case Nil
  then show ?case by (cases "statusOf rid (server_store s)") simp_all
next
  case (Cons e es)
  show ?case
  proof (cases e)
    case (PostRun body now_id now_start)
    let ?nid = "makeRunId now_id"
    let ?st' = "snd (snd (postRun body now_id now_start (server_store s)))"
    let ?s' = "\<lparr>server_store = ?st', server_pending = server_pending s @ [?nid]\<rparr>"
    have st: "step e s = Some ?s'" unfolding PostRun by (rule step_PostRun)
    from Cons.prems(2) PostRun have fr: "statusOf ?nid (server_store s) = None"
      and dist: "now_id \<notin> set (post_clocks es)" "distinct (post_clocks es)"
      and rest: "list_all (\<lambda>t. statusOf (makeRunId t) (server_store s) = None) (post_clocks es)"
      by (simp_all add: fresh_clocks_def)
    from Cons.prems(1) fr have notpend: "?nid \<notin> set (server_pending s)"
      by (auto simp: server_inv_def list_all_iff)
    have inv': "server_inv ?s'"
      unfolding server_inv_def list_all_iff
    proof (intro conjI ballI)
      show "distinct (server_pending ?s')"
        using Cons.prems(1) notpend by (simp add: server_inv_def)
      fix rid assume "rid \<in> set (server_pending ?s')"
      then consider "rid = ?nid" | "rid \<noteq> ?nid" "rid \<in> set (server_pending s)" by auto
      then show "statusOf rid (server_store ?s') = Some Running"
      proof cases
        case 1
        then show ?thesis by (simp add: statusOf_postRun_same)
      next
        case 2
        with Cons.prems(1) show ?thesis
          by (simp add: statusOf_postRun_other server_inv_def list_all_iff)
      qed
    qed
    have fresh': "fresh_clocks (post_clocks es) ?s'"
      unfolding fresh_clocks_def list_all_iff
    proof (intro conjI ballI)
      show "distinct (post_clocks es)" by (rule dist)
      fix t assume t: "t \<in> set (post_clocks es)"
      with dist have "t \<noteq> now_id" by auto
      then have "makeRunId t \<noteq> ?nid" by (simp add: makeRunId_eq_iff)
      then have "statusOf (makeRunId t) ?st' = statusOf (makeRunId t) (server_store s)"
        by (rule statusOf_postRun_other)
      with rest t show "statusOf (makeRunId t) (server_store ?s') = None"
        by (simp add: list_all_iff)
    qed
    have ih: "history_ok (statusOf rid ?st') (status_trace rid es ?s')"
      using Cons.IH[OF inv' fresh'] by simp
    have same: "statusOf rid ?st' = statusOf rid (server_store s)
                \<or> (statusOf rid (server_store s) = Some Running \<and> statusOf rid ?st' \<noteq> None)
                \<or> (statusOf rid (server_store s) = None \<and> statusOf rid ?st' = Some Running)"
      using fr by (cases "rid = ?nid") (simp_all add: statusOf_postRun_same statusOf_postRun_other)
    from history_step[OF ih same] st show ?thesis
      by (simp only: status_trace_Cons option.case server.simps)
  next
    case (Close cid exit_code report now)
    show ?thesis
    proof (cases "cid \<in> set (server_pending s)")
      case False
      with Close show ?thesis by (cases "statusOf rid (server_store s)") simp_all
    next
      case True
      let ?st' = "onClose cid exit_code report now (server_store s)"
      let ?s' = "\<lparr>server_store = ?st', server_pending = remove1 cid (server_pending s)\<rparr>"
      have st: "step e s = Some ?s'" using Close True by simp
      from Cons.prems(1) True have running: "statusOf cid (server_store s) = Some Running"
        by (auto simp: server_inv_def list_all_iff)
      have inv': "server_inv ?s'"
        unfolding server_inv_def list_all_iff
      proof (intro conjI ballI)
        show "distinct (server_pending ?s')"
          using Cons.prems(1) by (simp add: server_inv_def)
        fix rid assume "rid \<in> set (server_pending ?s')"
        with Cons.prems(1) have "rid \<noteq> cid" "rid \<in> set (server_pending s)"
          by (auto simp: server_inv_def)
        with Cons.prems(1) show "statusOf rid (server_store ?s') = Some Running"
          by (simp add: statusOf_onClose_other server_inv_def list_all_iff)
      qed
      have fresh': "fresh_clocks (post_clocks es) ?s'"
        unfolding fresh_clocks_def list_all_iff
      proof (intro conjI ballI)
        show "distinct (post_clocks es)"
          using Cons.prems(2) Close by (simp add: fresh_clocks_def)
        fix t assume t: "t \<in> set (post_clocks es)"
        with Cons.prems(2) Close have n: "statusOf (makeRunId t) (server_store s) = None"
          by (simp add: fresh_clocks_def list_all_iff)
        with running have "makeRunId t \<noteq> cid" by auto
        with n show "statusOf (makeRunId t) (server_store ?s') = None"
          by (simp add: statusOf_onClose_other)
      qed
      have ih: "history_ok (statusOf rid ?st') (status_trace rid es ?s')"
        using Cons.IH[OF inv' fresh'] by simp
      have same: "statusOf rid ?st' = statusOf rid (server_store s)
                  \<or> (statusOf rid (server_store s) = Some Running \<and> statusOf rid ?st' \<noteq> None)
                  \<or> (statusOf rid (server_store s) = None \<and> statusOf rid ?st' = Some Running)"
      proof (cases "rid = cid")
        case True
        with running statusOf_onClose_exists[of cid "server_store s" exit_code report now]
        show ?thesis by simp
      next
        case False
        then show ?thesis by (simp add: statusOf_onClose_other)
      qed
      from history_step[OF ih same] st show ?thesis
        by (simp only: status_trace_Cons option.case server.simps)
    qed
  qed
qed

lemma lifecycle_ok_shape:
  "lifecycle_ok tr \<Longrightarrow> \<exists>m n t. tr = replicate m Running @ replicate n t"
proof (induction tr rule: lifecycle_ok.induct)
  case 1
  show ?case by (rule exI[of _ 0], rule exI[of _ 0]) simp
next
  case (2 a)
  show ?case by (rule exI[of _ 0], rule exI[of _ 1], rule exI[of _ a]) simp
next
  case (3 a b rest)
  then obtain m n t where shape: "b # rest = replicate m Running @ replicate n t" by auto
  from 3(2) have ab: "a = Running \<or> b = a" by simp
  show ?case
  proof (cases "a = Running")
    case True
    have "a # b # rest = replicate (Suc m) Running @ replicate n t"
      using shape True by simp
    then show ?thesis by blast
  next
    case False
    with ab have ba: "b = a" by simp
    show ?thesis
    proof (cases m)
      case 0
      with shape have br: "b # rest = replicate n t" by simp
      then have "t = b" by (cases n) simp_all
      with br ba have "a # b # rest = replicate 0 Running @ replicate (Suc n) a"
        by simp
      then show ?thesis by blast
    next
      case (Suc k)
      with shape have "b = Running" by simp
      with ba False show ?thesis by simp
    qed
  qed
qed

text \<open>
  C3 (amended). In every execution of the server from its initial state in which no two
  run requests read the same \<open>Date.now()\<close> millisecond (so that no identifier is
  allocated twice), the record of every run starts at \<open>running\<close>, and once it shows a
  terminal status it shows that status ever after: its history is a stretch of
  \<open>running\<close> followed by a stretch of one status, so it changes at most once.
\<close>

theorem run_status_is_final_once_terminal:
  assumes "distinct (post_clocks evs)"
  shows "(status_trace runId evs initial_server = []
            \<or> hd (status_trace runId evs initial_server) = Running)
         \<and> lifecycle_ok (status_trace runId evs initial_server)
         \<and> (\<exists>m n t. status_trace runId evs initial_server
                       = replicate m Running @ replicate n t)"
proof -
  have inv: "server_inv initial_server"
    by (simp add: server_inv_def initial_server_def)
  have fresh: "fresh_clocks (post_clocks evs) initial_server"
    using assms by (simp add: fresh_clocks_def initial_server_def statusOf_def getRun_def list_all_iff)
  have "statusOf runId (server_store initial_server) = None"
    by (simp add: initial_server_def statusOf_def getRun_def)
  with status_trace_history_ok[OF inv fresh, of runId]
  have h: "(status_trace runId evs initial_server = []
            \<or> hd (status_trace runId evs initial_server) = Running)
           \<and> lifecycle_ok (status_trace runId evs initial_server)"
    by simp
  with lifecycle_ok_shape show ?thesis by blast
qed

text \<open>
  C3, as stated, fails: two requests in the same millisecond share one record and have
  two child processes; the first to close (code 0, no report) makes the record
  \<open>completed\<close>, the second (code 1) then makes it \<open>error\<close>.
\<close>

theorem terminal_status_changes_when_identifiers_collide:
  "status_trace (makeRunId 1700000000000) collision_events initial_server
     = [Running, Running, Completed, Error]"
  by (simp add: collision_events_def initial_server_def postRun_def createRun_def Let_def
        onClose_def updateRunStatus_def getRun_def)

text \<open>With different milliseconds the first run stays \<open>completed\<close> while the second
  closes with an error.\<close>

theorem run_status_is_final_once_terminal_witness:
  "distinct (post_clocks separate_events)
   \<and> status_trace (makeRunId 1700000000000) separate_events initial_server
       = [Running, Running, Completed, Completed]
   \<and> lifecycle_ok (status_trace (makeRunId 1700000000000) separate_events initial_server)"
proof -
  have d: "distinct (post_clocks separate_events)"
    by (simp add: separate_events_def)
  have t: "status_trace (makeRunId 1700000000000) separate_events initial_server
             = [Running, Running, Completed, Completed]"
    by (simp add: separate_events_def initial_server_def postRun_def createRun_def Let_def
          onClose_def updateRunStatus_def getRun_def makeRunId_eq_iff)
  from run_status_is_final_once_terminal [OF d, of "makeRunId 1700000000000"] d t
  show ?thesis by blast
qed

section \<open>Runs that close without results\<close>

lemma summaryOf_postRun_same:
  "summaryOf (makeRunId now_id) (snd (snd (postRun body now_id now_start st))) = Some zero_summary"
  by (simp add: summaryOf_def postRun_store getRun_createRun_same)

lemma summaryOf_postRun_other:
  "rid \<noteq> makeRunId now_id \<Longrightarrow>
   summaryOf rid (snd (snd (postRun body now_id now_start st))) = summaryOf rid st"
  by (simp add: summaryOf_def postRun_store getRun_createRun_other)

lemma summaryOf_onClose_other:
  "rid \<noteq> runId \<Longrightarrow> summaryOf rid (onClose runId exit_code report now st) = summaryOf rid st"
  by (simp add: summaryOf_def getRun_onClose_other)

lemma step_PostRun_Some:
  assumes st: "step e s = Some s'" and PostRun: "e = PostRun body now_id now_start"
  shows "s' = \<lparr>server_store = snd (snd (postRun body now_id now_start (server_store s))), server_pending = server_pending s @ [makeRunId now_id]\<rparr>"
proof -
  from st have "step (PostRun body now_id now_start) s = Some s'" unfolding PostRun .
  then have "Some \<lparr>server_store = snd (snd (postRun body now_id now_start (server_store s))), server_pending = server_pending s @ [makeRunId now_id]\<rparr> = Some s'"
    unfolding step_PostRun .
  then show ?thesis by (simp only: option.inject)
qed

lemma step_Close_Some:
  assumes st: "step e s = Some s'" and Close: "e = Close cid exit_code report now"
  shows "cid \<in> set (server_pending s) \<and> s' = \<lparr>server_store = onClose cid exit_code report now (server_store s), server_pending = remove1 cid (server_pending s)\<rparr>"
proof -
  from st have a: "step (Close cid exit_code report now) s = Some s'" unfolding Close .
  show ?thesis
  proof (cases "cid \<in> set (server_pending s)")
    case True
    with a show ?thesis by (simp only: step.simps if_True option.inject simp_thms)
  next
    case False
    with a show ?thesis by (simp only: step.simps if_False option.distinct)
  qed
qed

lemma step_preserves_invariant:
  assumes inv: "server_inv s" and zero: "pending_zero s"
    and fresh: "fresh_clocks (post_clocks (e # es)) s"
    and st: "step e s = Some s'"
  shows "server_inv s' \<and> pending_zero s' \<and> fresh_clocks (post_clocks es) s'"
proof (cases e)
  case (PostRun body now_id now_start)
  let ?nid = "makeRunId now_id"
  let ?st' = "snd (snd (postRun body now_id now_start (server_store s)))"
  from st PostRun have s': "s' = \<lparr>server_store = ?st', server_pending = server_pending s @ [?nid]\<rparr>"
    by (rule step_PostRun_Some)
  from fresh PostRun have fr: "statusOf ?nid (server_store s) = None"
    and dist: "now_id \<notin> set (post_clocks es)" "distinct (post_clocks es)"
    and rest: "list_all (\<lambda>t. statusOf (makeRunId t) (server_store s) = None) (post_clocks es)"
    by (simp_all add: fresh_clocks_def)
  from inv fr have notpend: "?nid \<notin> set (server_pending s)"
    by (auto simp: server_inv_def list_all_iff)
  have a: "server_inv s'"
    unfolding server_inv_def list_all_iff s'
  proof (intro conjI ballI)
    show "distinct (server_pending \<lparr>server_store = ?st', server_pending = server_pending s @ [?nid]\<rparr>)"
      using inv notpend by (simp add: server_inv_def)
    fix rid assume "rid \<in> set (server_pending \<lparr>server_store = ?st', server_pending = server_pending s @ [?nid]\<rparr>)"
    then consider "rid = ?nid" | "rid \<noteq> ?nid" "rid \<in> set (server_pending s)" by auto
    then show "statusOf rid (server_store \<lparr>server_store = ?st', server_pending = server_pending s @ [?nid]\<rparr>) = Some Running"
    proof cases
      case 1
      then show ?thesis by (simp add: statusOf_postRun_same)
    next
      case 2
      with inv show ?thesis
        by (simp add: statusOf_postRun_other server_inv_def list_all_iff)
    qed
  qed
  have b: "pending_zero s'"
    unfolding pending_zero_def list_all_iff s'
  proof (intro ballI)
    fix rid assume "rid \<in> set (server_pending \<lparr>server_store = ?st', server_pending = server_pending s @ [?nid]\<rparr>)"
    then consider "rid = ?nid" | "rid \<noteq> ?nid" "rid \<in> set (server_pending s)" by auto
    then show "summaryOf rid (server_store \<lparr>server_store = ?st', server_pending = server_pending s @ [?nid]\<rparr>) = Some zero_summary"
    proof cases
      case 1
      then show ?thesis by (simp add: summaryOf_postRun_same)
    next
      case 2
      with zero show ?thesis
        by (simp add: summaryOf_postRun_other pending_zero_def list_all_iff)
    qed
  qed
  have c: "fresh_clocks (post_clocks es) s'"
    unfolding fresh_clocks_def list_all_iff s'
  proof (intro conjI ballI)
    show "distinct (post_clocks es)" by (rule dist)
    fix t assume t: "t \<in> set (post_clocks es)"
    with dist have "t \<noteq> now_id" by auto
    then have "makeRunId t \<noteq> ?nid" by (simp add: makeRunId_eq_iff)
    then have "statusOf (makeRunId t) ?st' = statusOf (makeRunId t) (server_store s)"
      by (rule statusOf_postRun_other)
    with rest t show "statusOf (makeRunId t) (server_store \<lparr>server_store = ?st', server_pending = server_pending s @ [?nid]\<rparr>) = None"
      by (simp add: list_all_iff)
  qed
  from a b c show ?thesis by blast
next
  case (Close cid exit_code report now)
  let ?st' = "onClose cid exit_code report now (server_store s)"
  have pend: "cid \<in> set (server_pending s)"
    by (rule step_Close_Some[OF st Close, THEN conjunct1])
  have s': "s' = \<lparr>server_store = ?st', server_pending = remove1 cid (server_pending s)\<rparr>"
    by (rule step_Close_Some[OF st Close, THEN conjunct2])
  from inv pend have running: "statusOf cid (server_store s) = Some Running"
    by (auto simp: server_inv_def list_all_iff)
  from inv have dp: "distinct (server_pending s)" by (simp add: server_inv_def)
  have other: "rid \<noteq> cid \<and> rid \<in> set (server_pending s)"
    if "rid \<in> set (remove1 cid (server_pending s))" for rid
    using that dp by simp
  have a: "server_inv s'"
    unfolding server_inv_def list_all_iff s'
  proof (intro conjI ballI)
    show "distinct (server_pending \<lparr>server_store = ?st', server_pending = remove1 cid (server_pending s)\<rparr>)"
      using inv by (simp add: server_inv_def)
    fix rid assume "rid \<in> set (server_pending \<lparr>server_store = ?st', server_pending = remove1 cid (server_pending s)\<rparr>)"
    then have "rid \<in> set (remove1 cid (server_pending s))" by simp
    then have "rid \<noteq> cid \<and> rid \<in> set (server_pending s)" by (rule other)
    with inv show "statusOf rid (server_store \<lparr>server_store = ?st', server_pending = remove1 cid (server_pending s)\<rparr>) = Some Running"
      by (simp add: statusOf_onClose_other server_inv_def list_all_iff)
  qed
  have b: "pending_zero s'"
    unfolding pending_zero_def list_all_iff s'
  proof (intro ballI)
    fix rid assume "rid \<in> set (server_pending \<lparr>server_store = ?st', server_pending = remove1 cid (server_pending s)\<rparr>)"
    then have "rid \<in> set (remove1 cid (server_pending s))" by simp
    then have "rid \<noteq> cid \<and> rid \<in> set (server_pending s)" by (rule other)
    with zero show "summaryOf rid (server_store \<lparr>server_store = ?st', server_pending = remove1 cid (server_pending s)\<rparr>) = Some zero_summary"
      by (simp add: summaryOf_onClose_other pending_zero_def list_all_iff)
  qed
  have c: "fresh_clocks (post_clocks es) s'"
    unfolding fresh_clocks_def list_all_iff s'
  proof (intro conjI ballI)
    show "distinct (post_clocks es)"
      using fresh Close by (simp add: fresh_clocks_def)
    fix t assume t: "t \<in> set (post_clocks es)"
    with fresh Close have n: "statusOf (makeRunId t) (server_store s) = None"
      by (simp add: fresh_clocks_def list_all_iff)
    with running have "makeRunId t \<noteq> cid" by auto
    with n show "statusOf (makeRunId t) (server_store \<lparr>server_store = ?st', server_pending = remove1 cid (server_pending s)\<rparr>) = None"
      by (simp add: statusOf_onClose_other)
  qed
  from a b c show ?thesis by blast
qed

lemma run_events_preserves_invariant:
  "server_inv s \<Longrightarrow> pending_zero s \<Longrightarrow> fresh_clocks (post_clocks evs) s \<Longrightarrow>
   run_events evs s = Some s' \<Longrightarrow> server_inv s' \<and> pending_zero s'"
proof (induction evs arbitrary: s)
  case Nil
  then show ?case by simp
next
  case (Cons e es)
  from Cons.prems(4) obtain s1 where
    a: "step e s = Some s1" and b: "run_events es s1 = Some s'"
    by (auto split: option.splits)
  from step_preserves_invariant[OF Cons.prems(1) Cons.prems(2) Cons.prems(3) a]
  have "server_inv s1" "pending_zero s1" "fresh_clocks (post_clocks es) s1" by simp_all
  from Cons.IH[OF this b] show ?case .
qed

lemma reachable_invariant:
  assumes "distinct (post_clocks evs)" and "run_events evs initial_server = Some s"
  shows "server_inv s \<and> pending_zero s"
proof -
  have inv: "server_inv initial_server"
    by (simp add: server_inv_def initial_server_def)
  have zero: "pending_zero initial_server"
    by (simp add: pending_zero_def initial_server_def)
  have fresh: "fresh_clocks (post_clocks evs) initial_server"
    using assms(1) by (simp add: fresh_clocks_def initial_server_def statusOf_def getRun_def list_all_iff)
  from run_events_preserves_invariant[OF inv zero fresh assms(2)] show ?thesis .
qed

lemma pending_record:
  assumes "distinct (post_clocks evs)" and "run_events evs initial_server = Some s"
    and "runId \<in> set (server_pending s)"
  shows "\<exists>r. getRun runId (server_store s) = Some r \<and> status r = Running \<and> summary r = zero_summary"
proof -
  from reachable_invariant[OF assms(1,2)] assms(3)
  have "statusOf runId (server_store s) = Some Running"
    and "summaryOf runId (server_store s) = Some zero_summary"
    by (auto simp: server_inv_def pending_zero_def list_all_iff)
  then show ?thesis by (auto simp: statusOf_def summaryOf_def)
qed

text \<open>
  C2 (amended). In every execution of the server from its initial state in which no two
  run requests read the same \<open>Date.now()\<close> millisecond, when the child process of a run
  closes with a nonzero exit code (or is ended by a signal), the run's status becomes
  \<open>error\<close>, its end time is set and its summary is all-zero; the callback is exactly
  \<open>updateRunStatus(runId, 'error')\<close> whatever is at the report path, so no report is
  parsed or merged.
\<close>

theorem nonzero_exit_sets_error_with_zero_summary:
  assumes "distinct (post_clocks evs)"
    and "run_events evs initial_server = Some s"
    and "step (Close runId exit_code report now) s = Some s'"
    and "exit_code \<noteq> Some 0"
  shows "(\<exists>r. getRun runId (server_store s') = Some r \<and> status r = Error
              \<and> summary r = zero_summary \<and> endTime r = Some now)
         \<and> server_store s' = updateRunStatus runId Error now (server_store s)"
proof -
  from step_Close_Some[OF assms(3) refl] have pend: "runId \<in> set (server_pending s)"
    and s': "server_store s' = onClose runId exit_code report now (server_store s)"
    by simp_all
  from pending_record[OF assms(1,2) pend] obtain r where
    r: "getRun runId (server_store s) = Some r" and z: "summary r = zero_summary" by blast
  have g: "getRun runId (onClose runId exit_code report now (server_store s))
             = Some (r\<lparr>status := Error, endTime := Some now\<rparr>)"
    by (rule onClose_nonzero_exit[OF assms(4) r, THEN conjunct1])
  have u: "onClose runId exit_code report now (server_store s)
             = updateRunStatus runId Error now (server_store s)"
    by (rule onClose_nonzero_exit[OF assms(4) r, THEN conjunct2])
  have "\<exists>r'. getRun runId (server_store s') = Some r' \<and> status r' = Error
              \<and> summary r' = zero_summary \<and> endTime r' = Some now"
    unfolding s' g using z by simp
  moreover have "server_store s' = updateRunStatus runId Error now (server_store s)"
    unfolding s' by (rule u)
  ultimately show ?thesis by blast
qed

text \<open>
  C2, as stated, fails: two requests in the same millisecond share one record; the first
  process closes with code 0 and a report of four tests, the second with code 1, and the
  run ends with status \<open>error\<close> and a summary total of 4.
\<close>

theorem nonzero_exit_with_report_after_collision_keeps_counts:
  "map_option (\<lambda>s. map_option (\<lambda>r. (status r, total (summary r)))
                 (getRun (makeRunId 1700000000000) (server_store s)))
     (run_events (collision_report_events
                    @ [Close (makeRunId 1700000000000) (Some 1) NoFile 1700000006000])
        initial_server)
   = Some (Some (Error, 4))"
proof -
  from mixed_report_processed obtain pr where pr: "processTestResults mixed_report = Inr pr"
    by (cases "processTestResults mixed_report") simp_all
  have l: "allTests mixed_report = [test_a, test_b, test_c, test_d]"
    by (simp add: allTests_def mixed_report_def)
  from processTestResults_summary[OF pr] have t: "total (pr_summary pr) = 4"
    by (simp add: l countTests_def zero_summary_def)
  show ?thesis
    by (simp add: collision_report_events_def initial_server_def postRun_def createRun_def
          Let_def onClose_def updateRunStatus_def getRun_def pr t)
qed

lemma report_then_failure_events_run:
  "run_events report_then_failure_events initial_server \<noteq> None
   \<and> server_pending (the (run_events report_then_failure_events initial_server))
        = [makeRunId 1700000000001]
   \<and> map_option (\<lambda>r. (status r, total (summary r)))
        (getRun (makeRunId 1700000000000)
           (server_store (the (run_events report_then_failure_events initial_server))))
        = Some (Completed, 4)"
proof -
  from mixed_report_processed obtain pr where pr: "processTestResults mixed_report = Inr pr"
    by (cases "processTestResults mixed_report") simp_all
  have l: "allTests mixed_report = [test_a, test_b, test_c, test_d]"
    by (simp add: allTests_def mixed_report_def)
  from processTestResults_summary[OF pr] have t: "total (pr_summary pr) = 4"
    by (simp add: l countTests_def zero_summary_def)
  show ?thesis
    by (simp add: report_then_failure_events_def initial_server_def postRun_def createRun_def
          Let_def onClose_def updateRunStatus_def getRun_def makeRunId_eq_iff pr t)
qed

text \<open>With different milliseconds: the first run completes with four tests, the second
  closes with code 1 while the report file is there, and ends \<open>error\<close> with the
  all-zero summary.\<close>

theorem nonzero_exit_sets_error_with_zero_summary_witness:
  "distinct (post_clocks report_then_failure_events)
   \<and> map_option (\<lambda>r. (status r, total (summary r)))
        (getRun (makeRunId 1700000000000)
           (server_store (the (run_events report_then_failure_events initial_server))))
        = Some (Completed, 4)
   \<and> map_option (\<lambda>r. (status r, summary r, endTime r))
        (getRun (makeRunId 1700000000001)
           (server_store (the (step (Close (makeRunId 1700000000001) (Some 1)
                                      (Report mixed_report) 1700000006000)
                                (the (run_events report_then_failure_events initial_server))))))
        = Some (Error, zero_summary, Some 1700000006000)"
proof -
  let ?s = "the (run_events report_then_failure_events initial_server)"
  let ?e = "Close (makeRunId 1700000000001) (Some 1) (Report mixed_report) 1700000006000"
  have d: "distinct (post_clocks report_then_failure_events)"
    by (simp add: report_then_failure_events_def)
  from report_then_failure_events_run
  have h: "run_events report_then_failure_events initial_server = Some ?s"
    and p: "server_pending ?s = [makeRunId 1700000000001]"
    and c: "map_option (\<lambda>r. (status r, total (summary r)))
              (getRun (makeRunId 1700000000000) (server_store ?s)) = Some (Completed, 4)"
    by simp_all
  from p have "step ?e ?s \<noteq> None" by simp
  then have st: "step ?e ?s = Some (the (step ?e ?s))" by simp
  have n: "Some (1::int) \<noteq> Some 0" by simp
  from nonzero_exit_sets_error_with_zero_summary [OF d h st n, THEN conjunct1]
  obtain r where "getRun (makeRunId 1700000000001) (server_store (the (step ?e ?s))) = Some r"
    and "status r = Error" and "summary r = zero_summary" and "endTime r = Some 1700000006000"
    by blast
  then have "map_option (\<lambda>r. (status r, summary r, endTime r))
        (getRun (makeRunId 1700000000001) (server_store (the (step ?e ?s))))
        = Some (Error, zero_summary, Some 1700000006000)" by simp
  with d c show ?thesis by blast
qed

text \<open>
  C6 (amended). In every execution of the server from its initial state in which no two
  run requests read the same \<open>Date.now()\<close> millisecond, when the child process of a run
  closes with code 0 and there is no report file, the run becomes \<open>completed\<close> (not
  \<open>error\<close>), its end time is set and its summary is all-zero; the callback is exactly
  \<open>updateRunStatus(runId, 'completed')\<close>.
\<close>

theorem missing_report_completes_with_zero_summary:
  assumes "distinct (post_clocks evs)"
    and "run_events evs initial_server = Some s"
    and "step (Close runId (Some 0) NoFile now) s = Some s'"
  shows "(\<exists>r. getRun runId (server_store s') = Some r \<and> status r = Completed
              \<and> summary r = zero_summary \<and> endTime r = Some now)
         \<and> server_store s' = updateRunStatus runId Completed now (server_store s)"
proof -
  from step_Close_Some[OF assms(3) refl] have pend: "runId \<in> set (server_pending s)"
    and s': "server_store s' = onClose runId (Some 0) NoFile now (server_store s)"
    by simp_all
  from pending_record[OF assms(1,2) pend] obtain r where
    r: "getRun runId (server_store s) = Some r" and z: "summary r = zero_summary" by blast
  have g: "getRun runId (onClose runId (Some 0) NoFile now (server_store s))
             = Some (r\<lparr>status := Completed, endTime := Some now\<rparr>)"
    by (rule onClose_missing_report[OF r, THEN conjunct1])
  have u: "onClose runId (Some 0) NoFile now (server_store s)
             = updateRunStatus runId Completed now (server_store s)"
    by (rule onClose_missing_report[OF r, THEN conjunct2])
  have "\<exists>r'. getRun runId (server_store s') = Some r' \<and> status r' = Completed
              \<and> summary r' = zero_summary \<and> endTime r' = Some now"
    unfolding s' g using z by simp
  moreover have "server_store s' = updateRunStatus runId Completed now (server_store s)"
    unfolding s' by (rule u)
  ultimately show ?thesis by blast
qed

text \<open>
  C6, as stated, fails: two requests in the same millisecond share one record; the first
  process closes with code 0 and a report of four tests, the second with code 0 and no
  report file, and the run is \<open>completed\<close> with a summary total of 4.
\<close>

theorem missing_report_after_collision_keeps_counts:
  "map_option (\<lambda>s. map_option (\<lambda>r. (status r, total (summary r)))
                 (getRun (makeRunId 1700000000000) (server_store s)))
     (run_events (collision_report_events
                    @ [Close (makeRunId 1700000000000) (Some 0) NoFile 1700000006000])
        initial_server)
   = Some (Some (Completed, 4))"
proof -
  from mixed_report_processed obtain pr where pr: "processTestResults mixed_report = Inr pr"
    by (cases "processTestResults mixed_report") simp_all
  have l: "allTests mixed_report = [test_a, test_b, test_c, test_d]"
    by (simp add: allTests_def mixed_report_def)
  from processTestResults_summary[OF pr] have t: "total (pr_summary pr) = 4"
    by (simp add: l countTests_def zero_summary_def)
  show ?thesis
    by (simp add: collision_report_events_def initial_server_def postRun_def createRun_def
          Let_def onClose_def updateRunStatus_def getRun_def pr t)
qed

text \<open>With different milliseconds the second run completes with the all-zero summary
  while the first keeps its four tests.\<close>

theorem missing_report_completes_with_zero_summary_witness:
  "distinct (post_clocks report_then_failure_events)
   \<and> map_option (\<lambda>r. (status r, total (summary r)))
        (getRun (makeRunId 1700000000000)
           (server_store (the (run_events report_then_failure_events initial_server))))
        = Some (Completed, 4)
   \<and> map_option (\<lambda>r. (status r, summary r, endTime r))
        (getRun (makeRunId 1700000000001)
           (server_store (the (step (Close (makeRunId 1700000000001) (Some 0)
                                      NoFile 1700000006000)
                                (the (run_events report_then_failure_events initial_server))))))
        = Some (Completed, zero_summary, Some 1700000006000)"
proof -
  let ?s = "the (run_events report_then_failure_events initial_server)"
  let ?e = "Close (makeRunId 1700000000001) (Some 0) NoFile 1700000006000"
  have d: "distinct (post_clocks report_then_failure_events)"
    by (simp add: report_then_failure_events_def)
  from report_then_failure_events_run
  have h: "run_events report_then_failure_events initial_server = Some ?s"
    and p: "server_pending ?s = [makeRunId 1700000000001]"
    and c: "map_option (\<lambda>r. (status r, total (summary r)))
              (getRun (makeRunId 1700000000000) (server_store ?s)) = Some (Completed, 4)"
    by simp_all
  from p have "step ?e ?s \<noteq> None" by simp
  then have st: "step ?e ?s = Some (the (step ?e ?s))" by simp
  from missing_report_completes_with_zero_summary [OF d h st, THEN conjunct1]
  obtain r where "getRun (makeRunId 1700000000001) (server_store (the (step ?e ?s))) = Some r"
    and "status r = Completed" and "summary r = zero_summary" and "endTime r = Some 1700000006000"
    by blast
  then have "map_option (\<lambda>r. (status r, summary r, endTime r))
        (getRun (makeRunId 1700000000001) (server_store (the (step ?e ?s))))
        = Some (Completed, zero_summary, Some 1700000006000)" by simp
  with d c show ?thesis by blast
qed

end
